theory Spec2Isabelle
  imports Main "HOL-Library.AList" "HOL-Library.Monad_Syntax"
begin

section \<open>Cards, deck and scoring (server.js, lines 301-303)\<close>

text \<open>
  A card is the object \<open>{ suit, value }\<close> pushed by \<open>createDeck\<close>. The value strings
  are \<open>'A'\<close>, \<open>'J'\<close>, \<open>'Q'\<close>, \<open>'K'\<close> and the decimal numerals \<open>'2'\<close> .. \<open>'10'\<close>;
  \<open>Num n\<close> stands for the numeral string of \<open>n\<close>, which is what \<open>parseInt\<close> reads back
  in \<open>calculateScore\<close>.
\<close>

datatype suit = Hearts | Diamonds | Clubs | Spades

datatype rank = Ace | Num nat | Jack | Queen | King

datatype card = Card (suit: suit) (val: rank)

text \<open>
  \<open>function dealCard(deck) { return deck.pop(); }\<close>
  \<open>Array.prototype.pop\<close> removes and returns the last element; on an empty array it
  returns \<open>undefined\<close> and leaves the array empty. \<open>None\<close> is \<open>undefined\<close>.
\<close>

definition dealCard :: "card list \<Rightarrow> card option \<times> card list" where
  "dealCard deck = (if deck = [] then (None, []) else (Some (last deck), butlast deck))"

text \<open>
  The \<open>for (const card of hand)\<close> loop of \<open>calculateScore\<close>, on the pair
  \<open>(score, aceCount)\<close>.
\<close>

fun tally :: "card list \<Rightarrow> nat \<times> nat \<Rightarrow> nat \<times> nat" where
  "tally [] acc = acc"
| "tally (c # cs) (score, aceCount) =
     (if val c = Ace then tally cs (score + 11, aceCount + 1)
      else if val c \<in> {Jack, Queen, King} then tally cs (score + 10, aceCount)
      else tally cs (score + (case val c of Num n \<Rightarrow> n | _ \<Rightarrow> 0), aceCount))"

text \<open>
  \<open>while (score > 21 && aceCount > 0) { score -= 10; aceCount--; }\<close>
\<close>

function demote :: "nat \<Rightarrow> nat \<Rightarrow> nat" where
  "demote score aceCount =
     (if score > 21 \<and> aceCount > 0 then demote (score - 10) (aceCount - 1) else score)"
  by pat_completeness auto
termination
  by (relation "measure (\<lambda>(score, aceCount). aceCount)") auto

declare demote.simps [simp del]

definition calculateScore :: "card list \<Rightarrow> nat" where
  "calculateScore hand = (case tally hand (0, 0) of (score, aceCount) \<Rightarrow> demote score aceCount)"

subsection \<open>What the score is, said without the loops\<close>

definition aces :: "card list \<Rightarrow> nat" where
  "aces hand = length (filter (\<lambda>c. val c = Ace) hand)"

fun points :: "rank \<Rightarrow> nat" where
  "points Ace = 0"
| "points (Num n) = n"
| "points Jack = 10"
| "points Queen = 10"
| "points King = 10"

definition others :: "card list \<Rightarrow> nat" where
  "others hand = sum_list (map (\<lambda>c. points (val c)) hand)"

section \<open>Players, rooms and the server state\<close>

text \<open>
  \<open>createDeck\<close> builds the 52 cards suit by suit and then sorts them with a random
  comparator. The order it returns is not a function of the state, so every operation that
  reaches \<open>createDeck\<close> takes the returned deck as an argument. \<open>orderedDeck\<close> is one of
  the orders it can return: the order of the two nested loops.
\<close>

definition orderedDeck :: "card list" where
  "orderedDeck = concat (map (\<lambda>s. map (Card s)
     [Ace, Num 2, Num 3, Num 4, Num 5, Num 6, Num 7, Num 8, Num 9, Num 10, Jack, Queen, King])
     [Hearts, Diamonds, Clubs, Spades])"

type_synonym sid = string

type_synonym rid = string

type_synonym addr = nat

type_synonym handle = nat

text \<open>The \<open>gameState\<close> strings \<open>'waiting'\<close>, \<open>'betting'\<close>, \<open>'actionPhase'\<close>, \<open>'dealer'\<close>, \<open>'result'\<close>.\<close>

datatype phase = Waiting | Betting | ActionPhase | Dealer | Result

text \<open>
  The \<open>status\<close> strings \<open>'waiting'\<close>, \<open>'betting'\<close>, \<open>'betted'\<close>, \<open>'playing'\<close>, \<open>'stand'\<close>,
  \<open>'bust'\<close>; \<open>Dropped\<close> is the label \<open>startRound\<close> gives an eliminated player.
\<close>

datatype status = StWaiting | StBetting | StBetted | StPlaying | StStand | StBust | Dropped

text \<open>
  The \<open>result\<close> property of a player: absent after \<open>createPlayer\<close>, \<open>''\<close> after
  \<open>startRound\<close>, then one of the four messages of \<open>determineWinner\<close>.
\<close>

datatype resultMsg = Absent | Blank | LoseBust | Win | Lose | Push

text \<open>
  The dealer is \<open>{ hand, score }\<close> (\<open>startRound\<close> adds an empty \<open>status\<close> that nothing
  reads); a player has these two properties and six more. \<open>chips\<close> and \<open>bet\<close> are
  JavaScript numbers holding integers; the model is exact as long as they stay below
  \<open>2 ^ 53\<close> in absolute value.
\<close>

record holding =
  hand :: "card list"
  score :: nat

record player = holding +
  name :: string
  chips :: int
  bet :: int
  status :: status
  isEliminated :: bool
  result :: resultMsg

text \<open>\<open>room.timers\<close>: the handle last stored under each of the five keys, if any.\<close>

record roomTimers =
  betCountdown :: "handle option"
  betTimeout :: "handle option"
  actionTimer :: "handle option"
  dealerTurn :: "handle option"
  countdownTimer :: "handle option"

text \<open>
  \<open>players\<close> is an object keyed by socket id; \<open>for ... in\<close> and \<open>Object.values\<close> visit its
  keys in insertion order (socket ids are not array indices), so it is an association list
  with distinct keys: assigning to a key that is there replaces the value in place,
  assigning to a new key appends, \<open>delete\<close> removes the entry. The keys are ids that
  socket.io generates, twenty characters drawn at random; they are taken not to be property
  names of \<open>Object.prototype\<close>. \<open>deck\<close> is absent until the
  first \<open>startRound\<close>; the empty list stands for the absent deck too, since a draw throws
  \<open>TypeError\<close> in both cases (see \<open>draw\<close>).
\<close>

record room =
  players :: "(sid \<times> player) list"
  gameState :: phase
  round :: nat
  dealer :: holding
  deck :: "card list"
  timers :: roomTimers

text \<open>What a timer runs when it fires: the callback and the variables it closes over.\<close>

datatype callback =
    BetCountdownCb rid int
  | BetTimeoutCb rid addr
  | ActionTimerCb rid addr int
  | DealerWaitCb rid
  | DealerTurnCb rid addr
  | NextRoundCb rid addr int
  | FinalRankingCb rid

datatype shown = Face card | Hidden

record stateForClient =
  cPlayers :: "(sid \<times> player) list"
  cGameState :: phase
  cRound :: nat
  cDealerHand :: "shown list"
  cDealerScore :: nat

datatype errorMsg = IdInUse | NoSuchRoom | RoomFull

datatype notice = AllDecided | DealersTurn | Tallying

record rankEntry =
  rId :: sid
  rName :: string
  rChips :: int

datatype emission =
    ErrorMsg sid errorMsg
  | RoomJoined sid rid
  | GameStateUpdate rid stateForClient
  | Notification rid notice
  | BetCountdown rid int
  | ActionCountdown rid int
  | NextRoundCountdown rid int
  | FinalRanking sid "rankEntry list" nat int

text \<open>
  The server: the global \<open>rooms\<close> object, the room objects it and the timer closures refer
  to (a closure keeps its \<open>room\<close> after \<open>delete rooms[roomId]\<close>), the timers armed and not
  yet cleared with their delay in milliseconds, and everything emitted so far. A room
  object lives at the address \<open>createRoom\<close> gave it; \<open>heap\<close> is total, and an address never
  handed out holds a room nothing refers to.

  \<open>rooms\<close> holds the own properties of the object. \<open>rooms\<close> is created as \<open>{}\<close>, so
  \<open>rooms[roomId]\<close> also finds what \<open>Object.prototype\<close> has under that name: for the names
  of \<open>inherited\<close> it is a function (for \<open>__proto__\<close>, the prototype object), a truthy value
  without \<open>players\<close>, \<open>gameState\<close>, \<open>dealer\<close> or \<open>timers\<close>. A \<open>roomId\<close> is the property
  key a value sent by a client is turned into.

  \<open>joined\<close> is kept by socket.io: the rooms each socket has entered with \<open>socket.join\<close>, in
  the order it entered them. \<open>socket.rooms\<close> is a \<open>Set\<close> that holds the socket's own id, put
  there when the socket connects, followed by these.
\<close>

record server =
  rooms :: "rid \<rightharpoonup> addr"
  heap :: "addr \<Rightarrow> room"
  pending :: "handle \<rightharpoonup> callback \<times> nat"
  nextAddr :: addr
  nextHandle :: handle
  out :: "emission list"
  joined :: "sid \<Rightarrow> rid list"

definition MAX_ROUNDS :: nat where "MAX_ROUNDS = 5"

definition BET_TIME :: int where "BET_TIME = 20"

definition TURN_TIME :: int where "TURN_TIME = 20"

definition RESULT_TIME :: int where "RESULT_TIME = 8"

definition DEALER_WAIT_TIME :: nat where "DEALER_WAIT_TIME = 2000"

definition noTimers :: roomTimers where
  "noTimers = \<lparr>betCountdown = None, betTimeout = None, actionTimer = None,
     dealerTurn = None, countdownTimer = None\<rparr>"

definition start :: server where
  "start = \<lparr>rooms = Map.empty,
     heap = (\<lambda>_. \<lparr>players = [], gameState = Waiting, round = 0,
                   dealer = \<lparr>hand = [], score = 0\<rparr>, deck = [], timers = noTimers\<rparr>),
     pending = Map.empty, nextAddr = 0, nextHandle = 0, out = [], joined = (\<lambda>_. [])\<rparr>"

text \<open>The property names of \<open>Object.prototype\<close>.\<close>

definition inherited :: "string \<Rightarrow> bool" where
  "inherited k = (k \<in> set [''constructor'', ''__proto__'', ''toString'', ''toLocaleString'',
     ''valueOf'', ''hasOwnProperty'', ''isPrototypeOf'', ''propertyIsEnumerable'',
     ''__defineGetter__'', ''__defineSetter__'', ''__lookupGetter__'', ''__lookupSetter__''])"

subsection \<open>Small steps: emitting, timers, room objects\<close>

definition emit :: "emission \<Rightarrow> server \<Rightarrow> server" where
  "emit e s = s\<lparr>out := out s @ [e]\<rparr>"

definition modify :: "addr \<Rightarrow> (room \<Rightarrow> room) \<Rightarrow> server \<Rightarrow> server" where
  "modify a f s = s\<lparr>heap := (heap s)(a := f (heap s a))\<rparr>"

text \<open>\<open>setInterval\<close> and \<open>setTimeout\<close>: a fresh handle, and the timer is armed.\<close>

definition setTimer :: "callback \<Rightarrow> nat \<Rightarrow> server \<Rightarrow> handle \<times> server" where
  "setTimer cb ms s =
     (nextHandle s, s\<lparr>pending := (pending s)(nextHandle s \<mapsto> (cb, ms)), nextHandle := Suc (nextHandle s)\<rparr>)"

text \<open>\<open>clearInterval\<close> and \<open>clearTimeout\<close>; clearing \<open>undefined\<close> does nothing.\<close>

definition clearTimer :: "handle option \<Rightarrow> server \<Rightarrow> server" where
  "clearTimer h s = (case h of None \<Rightarrow> s | Some k \<Rightarrow> s\<lparr>pending := (pending s)(k := None)\<rparr>)"

definition clearAllTimers :: "rid \<Rightarrow> server \<Rightarrow> server" where
  "clearAllTimers roomId s =
     (case rooms s roomId of None \<Rightarrow> s
      | Some a \<Rightarrow>
          (let t = timers (heap s a)
           in clearTimer (countdownTimer t) (clearTimer (dealerTurn t) (clearTimer (actionTimer t)
                (clearTimer (betTimeout t) (clearTimer (betCountdown t) s))))))"

text \<open>
  \<open>socket.join(roomId)\<close> adds the room to the socket's \<open>Set\<close>, once. \<open>leaveAll\<close> is what
  socket.io does to a socket that is closing, before it emits \<open>'disconnect'\<close>: the socket
  leaves every room, its own included (socket.io 3 and later, which the code needs: it
  iterates \<open>socket.rooms\<close> and calls \<open>adapter.rooms.get\<close>).
\<close>

definition socketJoin :: "sid \<Rightarrow> rid \<Rightarrow> server \<Rightarrow> server" where
  "socketJoin sid roomId s =
     (if roomId = sid \<or> roomId \<in> set (joined s sid) then s
      else s\<lparr>joined := (joined s)(sid := joined s sid @ [roomId])\<rparr>)"

definition leaveAll :: "sid \<Rightarrow> server \<Rightarrow> server" where
  "leaveAll sid s = s\<lparr>joined := (joined s)(sid := [])\<rparr>"

definition mapPlayers :: "(player \<Rightarrow> player) \<Rightarrow> room \<Rightarrow> room" where
  "mapPlayers f r = r\<lparr>players := map (\<lambda>(pid, p). (pid, f p)) (players r)\<rparr>"

definition createPlayer :: "string \<Rightarrow> player" where
  "createPlayer playerName = \<lparr>hand = [], score = 0, name = playerName, chips = 1000, bet = 0,
     status = StWaiting, isEliminated = False, result = Absent\<rparr>"

subsection \<open>updateGameState (lines 293-298)\<close>

text \<open>
  The view built from a room. While \<open>gameState\<close> is \<open>'actionPhase'\<close> the dealer's hand is
  sent as \<open>[hand[0], { suit: 'hidden', value: ' ' }]\<close> and the score as
  \<open>calculateScore([hand[0]])\<close>; with an empty hand \<open>hand[0]\<close> is \<open>undefined\<close> and
  \<open>calculateScore\<close> throws \<open>TypeError\<close> (\<open>None\<close>). So does \<open>updateGameState\<close> on an inherited
  name, at \<open>room.dealer.hand\<close>.
\<close>

definition project :: "room \<Rightarrow> stateForClient option" where
  "project r =
     (let hideDealerCard = (gameState r = ActionPhase)
      in if hideDealerCard then
           (case hand (dealer r) of
              [] \<Rightarrow> None
            | c # _ \<Rightarrow> Some \<lparr>cPlayers = players r, cGameState = gameState r, cRound = round r,
                cDealerHand = [Face c, Hidden], cDealerScore = calculateScore [c]\<rparr>)
         else Some \<lparr>cPlayers = players r, cGameState = gameState r, cRound = round r,
                cDealerHand = map Face (hand (dealer r)), cDealerScore = score (dealer r)\<rparr>)"

definition updateGameState :: "rid \<Rightarrow> server \<Rightarrow> server option" where
  "updateGameState roomId s =
     (case rooms s roomId of None \<Rightarrow> if inherited roomId then None else Some s
      | Some a \<Rightarrow>
          (case project (heap s a) of None \<Rightarrow> None
           | Some v \<Rightarrow> Some (emit (GameStateUpdate roomId v) s)))"

subsection \<open>parseInt(amount, 10) (line 80)\<close>

text \<open>
  \<open>parseInt\<close> first turns its argument into a string, whatever was sent; \<open>amount\<close> below is
  that string. It skips leading white space, reads an optional sign and then the longest
  run of decimal digits; with no digit the result is \<open>NaN\<close> (\<open>None\<close>), otherwise the signed
  value of the digits, and whatever follows the digits is ignored. Characters are the code
  units below 256.
\<close>

definition isWhite :: "char \<Rightarrow> bool" where
  "isWhite c = (of_char c \<in> {9, 10, 11, 12, 13, 32, 160 :: nat})"

definition isDigit :: "char \<Rightarrow> bool" where
  "isDigit c = (48 \<le> (of_char c :: nat) \<and> (of_char c :: nat) \<le> 57)"

definition digitsValue :: "string \<Rightarrow> nat" where
  "digitsValue z = foldl (\<lambda>acc c. 10 * acc + (of_char c - 48)) 0 z"

definition parseInt :: "string \<Rightarrow> int option" where
  "parseInt amount =
     (let t = dropWhile isWhite amount;
          sign = (if t \<noteq> [] \<and> hd t = CHR ''-'' then - 1 else 1 :: int);
          u = (if t \<noteq> [] \<and> (hd t = CHR ''-'' \<or> hd t = CHR ''+'') then tl t else t);
          z = takeWhile isDigit u
      in if z = [] then None else Some (sign * int (digitsValue z)))"

subsection \<open>Drawing\<close>

text \<open>
  \<open>hand.push(dealCard(deck))\<close>, read together with the \<open>calculateScore(hand)\<close> that follows
  it in every caller: when the deck is empty \<open>undefined\<close> is pushed and \<open>calculateScore\<close>
  throws \<open>TypeError\<close> on reading its \<open>value\<close>. \<open>None\<close> is that uncaught exception, which
  ends the process; so is every other \<open>None\<close> returned by an operation below.
\<close>

definition draw :: "card list \<Rightarrow> card list \<Rightarrow> (card list \<times> card list) option" where
  "draw cards d = (case dealCard d of (None, _) \<Rightarrow> None | (Some c, d') \<Rightarrow> Some (cards @ [c], d'))"

subsection \<open>dealCards and startActionPhase (lines 170-206)\<close>

text \<open>The \<open>for (const id in room.players)\<close> loop of \<open>dealCards\<close>, with the deck it draws from.\<close>

fun dealPlayers :: "(sid \<times> player) list \<Rightarrow> card list \<Rightarrow> ((sid \<times> player) list \<times> card list) option" where
  "dealPlayers [] d = Some ([], d)"
| "dealPlayers ((pid, p) # ps) d =
     (if bet p > 0 \<and> \<not> isEliminated p then
        do { (h1, d1) \<leftarrow> draw (hand p) d;
             (h2, d2) \<leftarrow> draw h1 d1;
             (ps', d3) \<leftarrow> dealPlayers ps d2;
             Some ((pid, p\<lparr>hand := h2, score := calculateScore h2, status := StPlaying\<rparr>) # ps', d3) }
      else
        do { (ps', d3) \<leftarrow> dealPlayers ps d;
             Some ((pid, if \<not> isEliminated p then p\<lparr>status := StStand\<rparr> else p) # ps', d3) })"

definition startActionPhase :: "rid \<Rightarrow> server \<Rightarrow> server option" where
  "startActionPhase roomId s =
     (case rooms s roomId of None \<Rightarrow> if inherited roomId then None else Some s
      | Some a \<Rightarrow>
          do { s1 \<leftarrow> updateGameState roomId (modify a (\<lambda>r. r\<lparr>gameState := ActionPhase\<rparr>) s);
               let (h, s2) = setTimer (ActionTimerCb roomId a TURN_TIME) 1000 s1;
               Some (modify a (\<lambda>r. r\<lparr>timers := (timers r)\<lparr>actionTimer := Some h\<rparr>\<rparr>) s2) })"

definition dealCards :: "rid \<Rightarrow> server \<Rightarrow> server option" where
  "dealCards roomId s =
     (case rooms s roomId of None \<Rightarrow> Some s
      | Some a \<Rightarrow>
          if gameState (heap s a) \<noteq> Betting then Some s
          else
            (let s1 = clearAllTimers roomId s; room = heap s1 a
             in do { (ps, d1) \<leftarrow> dealPlayers (players room) (deck room);
                     (h1, d2) \<leftarrow> draw (hand (dealer room)) d1;
                     (h2, d3) \<leftarrow> draw h1 d2;
                     startActionPhase roomId
                       (modify a (\<lambda>r. r\<lparr>players := ps, deck := d3,
                          dealer := (dealer r)\<lparr>hand := h2, score := calculateScore h2\<rparr>\<rparr>) s1) }))"

subsection \<open>checkAndEndActionPhase (lines 28-44)\<close>

definition allPlayersDone :: "room \<Rightarrow> bool" where
  "allPlayersDone room = list_all (\<lambda>(pid, player).
     if bet player > 0 \<and> \<not> isEliminated player
     then status player = StStand \<or> status player = StBust else True) (players room)"

definition checkAndEndActionPhase :: "rid \<Rightarrow> server \<Rightarrow> server" where
  "checkAndEndActionPhase roomId s =
     (case rooms s roomId of None \<Rightarrow> s
      | Some a \<Rightarrow>
          if gameState (heap s a) \<noteq> ActionPhase then s
          else if allPlayersDone (heap s a) then
            snd (setTimer (DealerWaitCb roomId) DEALER_WAIT_TIME
                  (emit (Notification roomId AllDecided)
                    (clearTimer (actionTimer (timers (heap s a))) s)))
          else s)"

subsection \<open>The socket handlers (lines 46-126)\<close>

definition createRoom :: "sid \<Rightarrow> rid \<Rightarrow> string \<Rightarrow> server \<Rightarrow> server option" where
  "createRoom sid roomId playerName s =
     (if rooms s roomId \<noteq> None \<or> inherited roomId then Some (emit (ErrorMsg sid IdInUse) s)
      else
        (let a = nextAddr s;
             s0 = socketJoin sid roomId s;
             s1 = s0\<lparr>rooms := (rooms s0)(roomId \<mapsto> a),
                    heap := (heap s0)(a := \<lparr>players = [(sid, createPlayer playerName)],
                       gameState = Waiting, round = 0, dealer = \<lparr>hand = [], score = 0\<rparr>,
                       deck = [], timers = noTimers\<rparr>),
                    nextAddr := Suc a\<rparr>
         in updateGameState roomId (emit (RoomJoined sid roomId) s1)))"

definition joinRoom :: "sid \<Rightarrow> rid \<Rightarrow> string \<Rightarrow> server \<Rightarrow> server option" where
  "joinRoom sid roomId playerName s =
     (case rooms s roomId of
        None \<Rightarrow> if inherited roomId then None else Some (emit (ErrorMsg sid NoSuchRoom) s)
      | Some a \<Rightarrow>
          if length (players (heap s a)) \<ge> 5 then Some (emit (ErrorMsg sid RoomFull) s)
          else updateGameState roomId (emit (RoomJoined sid roomId)
                 (modify a (\<lambda>r. r\<lparr>players := AList.update sid (createPlayer playerName) (players r)\<rparr>)
                   (socketJoin sid roomId s))))"

text \<open>
  The two handlers that call \<open>getRoomIdFromSocket(socket)\<close> take the elements of
  \<open>socket.rooms\<close>, in iteration order, as the argument \<open>socketRooms\<close>; the event loop below
  passes what socket.io holds for the socket when the handler runs.
\<close>

definition getRoomIdFromSocket :: "sid \<Rightarrow> string list \<Rightarrow> rid option" where
  "getRoomIdFromSocket sid socketRooms = find (\<lambda>r. r \<noteq> sid) socketRooms"

definition resetPlayer :: "player \<Rightarrow> player" where
  "resetPlayer p = p\<lparr>hand := [], score := 0, bet := 0, result := Blank,
     status := (if isEliminated p then Dropped else StBetting)\<rparr>"

definition startRound :: "rid \<Rightarrow> card list \<Rightarrow> server \<Rightarrow> server option" where
  "startRound roomId newDeck s =
     (case rooms s roomId of None \<Rightarrow> if inherited roomId then None else Some s
      | Some a \<Rightarrow>
          (let s1 = clearAllTimers roomId s;
               s2 = modify a (\<lambda>r. mapPlayers resetPlayer
                      (r\<lparr>gameState := Betting, deck := newDeck, dealer := \<lparr>hand = [], score = 0\<rparr>\<rparr>)) s1;
               (h1, s3) = setTimer (BetCountdownCb roomId BET_TIME) 1000 s2;
               s4 = modify a (\<lambda>r. r\<lparr>timers := (timers r)\<lparr>betCountdown := Some h1\<rparr>\<rparr>) s3;
               (h2, s5) = setTimer (BetTimeoutCb roomId a) (nat (BET_TIME * 1000 + 500)) s4;
               s6 = modify a (\<lambda>r. r\<lparr>timers := (timers r)\<lparr>betTimeout := Some h2\<rparr>\<rparr>) s5
           in updateGameState roomId s6))"

text \<open>
  \<open>startGame\<close> writes \<open>room.round\<close> without looking whether the room exists; its only
  caller has looked. Without a room it throws, there or in \<open>startRound\<close>.
\<close>

definition startGame :: "rid \<Rightarrow> card list \<Rightarrow> server \<Rightarrow> server option" where
  "startGame roomId newDeck s =
     (case rooms s roomId of None \<Rightarrow> None
      | Some a \<Rightarrow> startRound roomId newDeck (modify a (\<lambda>r. r\<lparr>round := 1\<rparr>) s))"

definition requestStartGame :: "sid \<Rightarrow> string list \<Rightarrow> card list \<Rightarrow> server \<Rightarrow> server option" where
  "requestStartGame sid socketRooms newDeck s =
     (case getRoomIdFromSocket sid socketRooms of None \<Rightarrow> Some s
      | Some roomId \<Rightarrow>
          if roomId = [] then Some s
          else
            (case rooms s roomId of None \<Rightarrow> Some s
             | Some a \<Rightarrow>
                 if gameState (heap s a) = Waiting \<and> length (players (heap s a)) \<ge> 1
                 then startGame roomId newDeck s else Some s))"

definition allPlayersBetted :: "room \<Rightarrow> bool" where
  "allPlayersBetted room = list_all (\<lambda>(pid, p). status p = StBetted \<or> isEliminated p) (players room)"

definition placeBet :: "sid \<Rightarrow> rid \<Rightarrow> string \<Rightarrow> server \<Rightarrow> server option" where
  "placeBet sid roomId amount s =
     (case rooms s roomId of None \<Rightarrow> if inherited roomId then None else Some s
      | Some a \<Rightarrow>
          (case map_of (players (heap s a)) sid of None \<Rightarrow> Some s
           | Some player \<Rightarrow>
               if gameState (heap s a) \<noteq> Betting then Some s
               else if isEliminated player then Some s
               else
                 (case parseInt amount of None \<Rightarrow> Some s
                  | Some betAmount \<Rightarrow>
                      if betAmount > 0 then
                        (let s1 = modify a (\<lambda>r. r\<lparr>players := AList.map_entry sid
                                     (\<lambda>p. p\<lparr>bet := betAmount, status := StBetted\<rparr>) (players r)\<rparr>) s
                         in if allPlayersBetted (heap s1 a) then
                              dealCards roomId
                                (clearTimer (betCountdown (timers (heap s1 a)))
                                  (clearTimer (betTimeout (timers (heap s1 a))) s1))
                            else updateGameState roomId s1)
                      else Some s)))"

definition hit :: "sid \<Rightarrow> rid \<Rightarrow> server \<Rightarrow> server option" where
  "hit sid roomId s =
     (case rooms s roomId of None \<Rightarrow> if inherited roomId then None else Some s
      | Some a \<Rightarrow>
          (case map_of (players (heap s a)) sid of None \<Rightarrow> Some s
           | Some player \<Rightarrow>
               if gameState (heap s a) \<noteq> ActionPhase \<or> status player \<noteq> StPlaying then Some s
               else
                 do { (h, d) \<leftarrow> draw (hand player) (deck (heap s a));
                      let sc = calculateScore h;
                      let s1 = modify a (\<lambda>r. r\<lparr>deck := d, players := AList.map_entry sid
                                 (\<lambda>p. p\<lparr>hand := h, score := sc,
                                    status := (if sc > 21 then StBust else status p)\<rparr>) (players r)\<rparr>) s;
                      s2 \<leftarrow> updateGameState roomId s1;
                      Some (checkAndEndActionPhase roomId s2) }))"

definition stand :: "sid \<Rightarrow> rid \<Rightarrow> server \<Rightarrow> server option" where
  "stand sid roomId s =
     (case rooms s roomId of None \<Rightarrow> if inherited roomId then None else Some s
      | Some a \<Rightarrow>
          (case map_of (players (heap s a)) sid of None \<Rightarrow> Some s
           | Some player \<Rightarrow>
               if gameState (heap s a) \<noteq> ActionPhase \<or> status player \<noteq> StPlaying then Some s
               else
                 do { s2 \<leftarrow> updateGameState roomId
                        (modify a (\<lambda>r. r\<lparr>players := AList.map_entry sid
                           (\<lambda>p. p\<lparr>status := StStand\<rparr>) (players r)\<rparr>) s);
                      Some (checkAndEndActionPhase roomId s2) }))"

definition disconnect :: "sid \<Rightarrow> string list \<Rightarrow> server \<Rightarrow> server option" where
  "disconnect sid socketRooms s =
     (case getRoomIdFromSocket sid socketRooms of None \<Rightarrow> Some s
      | Some roomId \<Rightarrow>
          if roomId = [] then Some s
          else
            (case rooms s roomId of None \<Rightarrow> if inherited roomId then None else Some s
             | Some a \<Rightarrow>
                 (case map_of (players (heap s a)) sid of None \<Rightarrow> Some s
                  | Some _ \<Rightarrow>
                      (let s1 = modify a (\<lambda>r. r\<lparr>players := AList.delete sid (players r)\<rparr>) s
                       in if length (players (heap s1 a)) = 0 then
                            (let s2 = clearAllTimers roomId s1
                             in Some (s2\<lparr>rooms := (rooms s2)(roomId := None)\<rparr>))
                          else
                            do { s2 \<leftarrow> updateGameState roomId s1;
                                 Some (checkAndEndActionPhase roomId s2) }))))"

subsection \<open>dealerTurn and determineWinner (lines 208-291)\<close>

text \<open>
  The function \<open>dealerTurn\<close>; the name \<open>dealerTurn\<close> itself is taken by the key of
  \<open>room.timers\<close> under which the function stores its interval.
\<close>

definition dealerTurnFn :: "rid \<Rightarrow> server \<Rightarrow> server option" where
  "dealerTurnFn roomId s =
     (case rooms s roomId of None \<Rightarrow> if inherited roomId then None else Some s
      | Some a \<Rightarrow>
          do { s1 \<leftarrow> updateGameState roomId (modify a (\<lambda>r. r\<lparr>gameState := Dealer\<rparr>) s);
               let (h, s2) = setTimer (DealerTurnCb roomId a) 1500 s1;
               Some (modify a (\<lambda>r. r\<lparr>timers := (timers r)\<lparr>dealerTurn := Some h\<rparr>\<rparr>) s2) })"

text \<open>The body of the loop of \<open>determineWinner\<close> for one player, against \<open>dealerScore\<close>.\<close>

definition loses :: "resultMsg \<Rightarrow> player \<Rightarrow> player" where
  "loses resultMsg p =
     (let p1 = p\<lparr>chips := chips p - bet p\<rparr>;
          p2 = (if chips p1 < 0 then p1\<lparr>isEliminated := True\<rparr> else p1)
      in p2\<lparr>result := resultMsg\<rparr>)"

definition settle :: "nat \<Rightarrow> player \<Rightarrow> player" where
  "settle dealerScore p =
     (if bet p > 0 then
        (if status p = StBust then loses LoseBust p
         else if dealerScore > 21 \<or> score p > dealerScore then
           p\<lparr>chips := chips p + bet p, result := Win\<rparr>
         else if score p < dealerScore then loses Lose p
         else p\<lparr>result := Push\<rparr>)
      else p)"

definition determineWinner :: "rid \<Rightarrow> server \<Rightarrow> server option" where
  "determineWinner roomId s =
     (case rooms s roomId of None \<Rightarrow> if inherited roomId then None else Some s
      | Some a \<Rightarrow>
          do { s1 \<leftarrow> updateGameState roomId
                 (modify a (\<lambda>r. mapPlayers (settle (score (dealer r))) (r\<lparr>gameState := Result\<rparr>)) s);
               if round (heap s1 a) \<ge> MAX_ROUNDS then
                 Some (snd (setTimer (FinalRankingCb roomId) 2000
                        (emit (Notification roomId Tallying) s1)))
               else
                 (let (h, s2) = setTimer (NextRoundCb roomId a RESULT_TIME) 1000 s1
                  in Some (modify a (\<lambda>r. r\<lparr>timers := (timers r)\<lparr>countdownTimer := Some h\<rparr>\<rparr>) s2)) })"

subsection \<open>The timer callbacks\<close>

text \<open>
  The ranking of the final callback: \<open>players\<close> mapped to \<open>{ id, name, chips }\<close> and sorted
  with \<open>(a, b) => b.chips - a.chips\<close>; \<open>Array.prototype.sort\<close> is stable.
\<close>

definition fullRanking :: "room \<Rightarrow> rankEntry list" where
  "fullRanking room = sort_key (\<lambda>e. - rChips e)
     (map (\<lambda>(pid, p). \<lparr>rId = pid, rName = name p, rChips = chips p\<rparr>) (players room))"

definition sendRanking :: "rankEntry list \<Rightarrow> sid \<Rightarrow> server \<Rightarrow> server" where
  "sendRanking ranking socketId s =
     (case find (\<lambda>p. rId p = socketId) ranking of None \<Rightarrow> s
      | Some myData \<Rightarrow>
          emit (FinalRanking socketId (take 5 ranking)
                 (length (takeWhile (\<lambda>p. rId p \<noteq> socketId) ranking) + 1) (rChips myData)) s)"

text \<open>
  \<open>run h cb ms newDeck members\<close> is the timer \<open>h\<close> firing with callback \<open>cb\<close>. A timeout is
  spent when it fires; an interval stays armed, and the \<open>countdown\<close> it closes over keeps
  the decrement. \<open>newDeck\<close> is what \<open>createDeck\<close> returns should the callback reach
  \<open>startRound\<close>; \<open>members\<close> is \<open>io.sockets.adapter.rooms.get(roomId)\<close> for the final
  ranking, the connected sockets that joined the room (none when it is \<open>undefined\<close>).
  A callback reads \<open>room\<close> from its closure (the address) and \<open>rooms[roomId]\<close> from the
  global object, each where the source does.
\<close>

fun run :: "handle \<Rightarrow> callback \<Rightarrow> nat \<Rightarrow> card list \<Rightarrow> sid list \<Rightarrow> server \<Rightarrow> server option" where
  "run h (BetCountdownCb roomId countdown) ms newDeck members s =
     (let s1 = emit (BetCountdown roomId countdown) s;
          s2 = s1\<lparr>pending := (pending s1)(h \<mapsto> (BetCountdownCb roomId (countdown - 1), ms))\<rparr>
      in Some (if countdown - 1 < 0 then clearTimer (Some h) s2 else s2))"
| "run h (BetTimeoutCb roomId a) ms newDeck members s =
     (let s1 = clearTimer (Some h) s
      in case rooms s1 roomId of None \<Rightarrow> Some s1
         | Some b \<Rightarrow>
             if gameState (heap s1 b) = Betting then
               dealCards roomId
                 (modify a (mapPlayers (\<lambda>p. if status p = StBetting
                    then p\<lparr>bet := 0, status := StBetted\<rparr> else p)) s1)
             else Some s1)"
| "run h (ActionTimerCb roomId a countdown) ms newDeck members s =
     (let s1 = emit (ActionCountdown roomId countdown) s;
          s2 = s1\<lparr>pending := (pending s1)(h \<mapsto> (ActionTimerCb roomId a (countdown - 1), ms))\<rparr>
      in if countdown - 1 < 0 then
           do { s3 \<leftarrow> updateGameState roomId
                  (modify a (mapPlayers (\<lambda>p. if status p = StPlaying
                     then p\<lparr>status := StStand\<rparr> else p)) (clearTimer (Some h) s2));
                Some (snd (setTimer (DealerWaitCb roomId) DEALER_WAIT_TIME
                       (emit (Notification roomId DealersTurn) s3))) }
         else Some s2)"
| "run h (DealerWaitCb roomId) ms newDeck members s = dealerTurnFn roomId (clearTimer (Some h) s)"
| "run h (DealerTurnCb roomId a) ms newDeck members s =
     (let room = heap s a
      in if score (dealer room) < 17 then
           do { (cards, d) \<leftarrow> draw (hand (dealer room)) (deck room);
                updateGameState roomId
                  (modify a (\<lambda>r. r\<lparr>deck := d,
                     dealer := (dealer r)\<lparr>hand := cards, score := calculateScore cards\<rparr>\<rparr>) s) }
         else determineWinner roomId (clearTimer (dealerTurn (timers room)) s))"
| "run h (NextRoundCb roomId a countdown) ms newDeck members s =
     (let s1 = emit (NextRoundCountdown roomId countdown) s;
          s2 = s1\<lparr>pending := (pending s1)(h \<mapsto> (NextRoundCb roomId a (countdown - 1), ms))\<rparr>
      in if countdown - 1 < 0 then
           startRound roomId newDeck
             (modify a (\<lambda>r. r\<lparr>round := round r + 1\<rparr>)
               (clearTimer (countdownTimer (timers (heap s2 a))) s2))
         else Some s2)"
| "run h (FinalRankingCb roomId) ms newDeck members s =
     (let s1 = clearTimer (Some h) s
      in case rooms s1 roomId of None \<Rightarrow> if inherited roomId then None else Some s1
         | Some a \<Rightarrow>
             (let s2 = fold (sendRanking (fullRanking (heap s1 a))) members s1
              in Some (s2\<lparr>rooms := (rooms s2)(roomId := None)\<rparr>)))"

definition fire :: "handle \<Rightarrow> card list \<Rightarrow> sid list \<Rightarrow> server \<Rightarrow> server option" where
  "fire h newDeck members s =
     (case pending s h of None \<Rightarrow> Some s | Some (cb, ms) \<Rightarrow> run h cb ms newDeck members s)"

subsection \<open>The event loop\<close>

text \<open>
  One event is handled to completion before the next: a message from a socket, a socket
  closing, or an armed timer firing. Time itself is not modelled; the order of the events
  is. A socket that closes has left all its rooms when its \<open>'disconnect'\<close> handler runs, and
  \<open>socket.rooms\<close> is then empty.
\<close>

datatype event =
    CreateRoom sid rid string
  | JoinRoom sid rid string
  | RequestStartGame sid "card list"
  | PlaceBet sid rid string
  | Hit sid rid
  | Stand sid rid
  | Disconnect sid
  | Fire handle "card list" "sid list"

fun step :: "event \<Rightarrow> server \<Rightarrow> server option" where
  "step (CreateRoom sid roomId playerName) s = createRoom sid roomId playerName s"
| "step (JoinRoom sid roomId playerName) s = joinRoom sid roomId playerName s"
| "step (RequestStartGame sid newDeck) s = requestStartGame sid (sid # joined s sid) newDeck s"
| "step (PlaceBet sid roomId amount) s = placeBet sid roomId amount s"
| "step (Hit sid roomId) s = hit sid roomId s"
| "step (Stand sid roomId) s = stand sid roomId s"
| "step (Disconnect sid) s = disconnect sid (joined (leaveAll sid s) sid) (leaveAll sid s)"
| "step (Fire h newDeck members) s = fire h newDeck members s"

fun steps :: "event list \<Rightarrow> server \<Rightarrow> server option" where
  "steps [] s = Some s"
| "steps (e # es) s = (case step e s of None \<Rightarrow> None | Some s' \<Rightarrow> steps es s')"


section \<open>Vocabulary of the claims\<close>

text \<open>What \<open>dealCards\<close> does to one player: two cards for a live bet, \<open>stand\<close> for a
  player who is not eliminated and has no bet, nothing for an eliminated one.\<close>

definition dealtTo :: "player \<Rightarrow> player \<Rightarrow> bool" where
  "dealtTo p p' =
     (if bet p > 0 \<and> \<not> isEliminated p then
        p' = p\<lparr>hand := hand p', score := calculateScore (hand p'), status := StPlaying\<rparr>
        \<and> length (hand p') = length (hand p) + 2 \<and> take (length (hand p)) (hand p') = hand p
      else p' = (if isEliminated p then p else p\<lparr>status := StStand\<rparr>))"

text \<open>
  The reading of "the submitted amount is a positive integer" that the bet is checked
  against: the text sent is a decimal numeral, and its value is positive.
\<close>

definition positiveInteger :: "string \<Rightarrow> bool" where
  "positiveInteger amount = (amount \<noteq> [] \<and> list_all isDigit amount \<and> 0 < digitsValue amount)"

definition isBetTimer :: "(callback \<times> nat) option \<Rightarrow> bool" where
  "isBetTimer t = (case t of Some (BetCountdownCb _ _, _) \<Rightarrow> True
                   | Some (BetTimeoutCb _ _, _) \<Rightarrow> True | _ \<Rightarrow> False)"

text \<open>The guard of the \<open>placeBet\<close> handler, and the bet it then stores.\<close>

definition betGuard :: "sid \<Rightarrow> rid \<Rightarrow> string \<Rightarrow> server \<Rightarrow> addr \<Rightarrow> player \<Rightarrow> int \<Rightarrow> bool" where
  "betGuard sid roomId amount s a player n =
     (rooms s roomId = Some a \<and> map_of (players (heap s a)) sid = Some player
      \<and> gameState (heap s a) = Betting \<and> \<not> isEliminated player
      \<and> parseInt amount = Some n \<and> 0 < n)"

definition withBet :: "sid \<Rightarrow> int \<Rightarrow> addr \<Rightarrow> server \<Rightarrow> server" where
  "withBet sid n a s = modify a (\<lambda>r. r\<lparr>players := AList.map_entry sid
     (\<lambda>p. p\<lparr>bet := n, status := StBetted\<rparr>) (players r)\<rparr>) s"

text \<open>
  Sample states for the theorems with hypotheses. \<open>bettingTable ps\<close> is a room \<open>r\<close> in the
  betting phase of round 1, as \<open>startRound\<close> leaves it: a deck in hand, the dealer's hand
  empty, the countdown and the deadline armed. \<open>betsOf\<close> and \<open>phaseOf\<close> read a state.
\<close>

definition punter :: "string \<Rightarrow> status \<Rightarrow> int \<Rightarrow> player" where
  "punter playerName st b = (createPlayer playerName)\<lparr>bet := b, status := st\<rparr>"

definition bettingTable :: "(sid \<times> player) list \<Rightarrow> server" where
  "bettingTable ps = start\<lparr>rooms := [''r'' \<mapsto> 0],
     heap := (heap start)(0 := \<lparr>players = ps, gameState = Betting, round = 1,
        dealer = \<lparr>hand = [], score = 0\<rparr>, deck = orderedDeck,
        timers = noTimers\<lparr>betCountdown := Some 0, betTimeout := Some 1\<rparr>\<rparr>),
     pending := [0 \<mapsto> (BetCountdownCb ''r'' 20, 1000), 1 \<mapsto> (BetTimeoutCb ''r'' 0, 20500)],
     nextAddr := 1, nextHandle := 2\<rparr>"

definition betsOf :: "addr \<Rightarrow> server \<Rightarrow> (sid \<times> int \<times> status) list" where
  "betsOf a s = map (\<lambda>(pid, p). (pid, bet p, status p)) (players (heap s a))"

definition phaseOf :: "addr \<Rightarrow> server \<Rightarrow> phase" where
  "phaseOf a s = gameState (heap s a)"

text \<open>
  What has happened between a state \<open>s\<close> and the state \<open>s'\<close> in which a handler has run the
  all-done check: the room is still in the action phase; if every player is done, the handle
  under \<open>actionTimer\<close> is cleared, the notification is the last thing emitted, and a timeout
  of \<open>DEALER_WAIT_TIME\<close> is armed whose firing puts the room into the dealer phase; if not,
  no timer has changed.
\<close>

definition afterCheck :: "rid \<Rightarrow> addr \<Rightarrow> server \<Rightarrow> server \<Rightarrow> bool" where
  "afterCheck roomId a s s' =
     (gameState (heap s' a) = ActionPhase
      \<and> (if allPlayersDone (heap s' a) then
           pending s' = (pending (clearTimer (actionTimer (timers (heap s a))) s))
                          (nextHandle s \<mapsto> (DealerWaitCb roomId, DEALER_WAIT_TIME))
           \<and> last (out s') = Notification roomId AllDecided
           \<and> (\<forall>newDeck members. \<exists>s''. fire (nextHandle s) newDeck members s' = Some s''
                  \<and> gameState (heap s'' a) = Dealer)
         else pending s' = pending s))"

text \<open>
  A room \<open>r\<close> in the action phase of round 1, as \<open>dealCards\<close> leaves it: the dealer holds
  two cards and the action countdown is armed.
\<close>

definition actionTable :: "(sid \<times> player) list \<Rightarrow> server" where
  "actionTable ps = start\<lparr>rooms := [''r'' \<mapsto> 0],
     heap := (heap start)(0 := \<lparr>players = ps, gameState = ActionPhase, round = 1,
        dealer = \<lparr>hand = [Card Spades (Num 9), Card Spades (Num 8)], score = 17\<rparr>,
        deck = take 46 orderedDeck,
        timers = noTimers\<lparr>betCountdown := Some 0, betTimeout := Some 1, actionTimer := Some 2\<rparr>\<rparr>),
     pending := [2 \<mapsto> (ActionTimerCb ''r'' 0 20, 1000)],
     nextAddr := 1, nextHandle := 3\<rparr>"

definition checkView :: "addr \<Rightarrow> handle \<Rightarrow> server \<Rightarrow> phase \<times> bool \<times> (callback \<times> nat) option" where
  "checkView a h s = (gameState (heap s a), allPlayersDone (heap s a), pending s h)"

text \<open>
  \<open>benched c p\<close>: the record of an eliminated player as \<open>startRound\<close> leaves it, holding
  \<open>c\<close> chips: no bet, no cards, the label of the eliminated. \<open>sidelined k c r\<close>: room \<open>r\<close> has
  such a record under the socket id \<open>k\<close>. \<open>keeps k c s s'\<close>: every room object that existed
  in \<open>s\<close> and had \<open>k\<close> sidelined with \<open>c\<close> chips still has it so in \<open>s'\<close>.
\<close>

definition benched :: "int \<Rightarrow> player \<Rightarrow> bool" where
  "benched c p = (isEliminated p \<and> chips p = c \<and> bet p = 0 \<and> hand p = [] \<and> status p = Dropped)"

definition sidelined :: "sid \<Rightarrow> int \<Rightarrow> room \<Rightarrow> bool" where
  "sidelined k c r = (case map_of (players r) k of None \<Rightarrow> False | Some p \<Rightarrow> benched c p)"

definition keeps :: "sid \<Rightarrow> int \<Rightarrow> server \<Rightarrow> server \<Rightarrow> bool" where
  "keeps k c s s' = (nextAddr s \<le> nextAddr s'
     \<and> (\<forall>a<nextAddr s. sidelined k c (heap s a) \<longrightarrow> sidelined k c (heap s' a)))"

definition byOthers :: "sid \<Rightarrow> event \<Rightarrow> bool" where
  "byOthers k e = (case e of JoinRoom sid _ _ \<Rightarrow> sid \<noteq> k | _ \<Rightarrow> True)"

text \<open>
  \<open>sound p\<close>: the player's chips are not negative, or the player is eliminated.
  \<open>solvent s\<close>: every player of every room object is sound. It holds at the start and
  every event keeps it.
\<close>

definition sound :: "player \<Rightarrow> bool" where
  "sound p = (0 \<le> chips p \<or> isEliminated p)"

definition soundAll :: "(sid \<times> player) list \<Rightarrow> bool" where
  "soundAll ps = list_all (\<lambda>(pid, p). sound p) ps"

definition solvent :: "server \<Rightarrow> bool" where
  "solvent s = (\<forall>a. soundAll (players (heap s a)))"

text \<open>
  \<open>scoredRoom r\<close>: the dealer's stored score is the score of the dealer's hand, and in the
  action phase the dealer holds a card. \<open>scored s\<close>: every room object is so. It holds at
  the start and every event keeps it.
\<close>

definition scoredRoom :: "room \<Rightarrow> bool" where
  "scoredRoom r = (score (dealer r) = calculateScore (hand (dealer r))
     \<and> (gameState r = ActionPhase \<longrightarrow> hand (dealer r) \<noteq> []))"

definition scored :: "server \<Rightarrow> bool" where
  "scored s = (\<forall>a. scoredRoom (heap s a))"

text \<open>
  The timers of a room. \<open>owner cb\<close> is the room id the callback closes over. \<open>fits cb h a r\<close>:
  the timer \<open>h\<close> that runs \<open>cb\<close> is a timer of the phase room \<open>r\<close>, the object at \<open>a\<close>, is in:
  the phase is the one in which \<open>cb\<close> is armed, the \<open>room\<close> the callback closes over is this
  object, and where the code records the handle in \<open>room.timers\<close>, the handle recorded is
  \<open>h\<close>; for the timeout of the dealer's turn, which is armed in the action phase once every
  player is done, no player is still playing (\<open>calm\<close>). \<open>fitting s h cb\<close>: the room id of \<open>cb\<close>
  names a room of \<open>rooms\<close>, and the timer fits that room.
\<close>

fun owner :: "callback \<Rightarrow> rid" where
  "owner (BetCountdownCb roomId n) = roomId"
| "owner (BetTimeoutCb roomId b) = roomId"
| "owner (ActionTimerCb roomId b n) = roomId"
| "owner (DealerWaitCb roomId) = roomId"
| "owner (DealerTurnCb roomId b) = roomId"
| "owner (NextRoundCb roomId b n) = roomId"
| "owner (FinalRankingCb roomId) = roomId"

definition calm :: "room \<Rightarrow> bool" where
  "calm r = list_all (\<lambda>(pid, p). status p \<noteq> StPlaying) (players r)"

fun fits :: "callback \<Rightarrow> handle \<Rightarrow> addr \<Rightarrow> room \<Rightarrow> bool" where
  "fits (BetCountdownCb roomId n) h a r =
     (gameState r = Betting \<and> betCountdown (timers r) = Some h)"
| "fits (BetTimeoutCb roomId b) h a r =
     (b = a \<and> gameState r = Betting \<and> betTimeout (timers r) = Some h)"
| "fits (ActionTimerCb roomId b n) h a r =
     (b = a \<and> gameState r = ActionPhase \<and> actionTimer (timers r) = Some h)"
| "fits (DealerWaitCb roomId) h a r = (gameState r = ActionPhase \<and> calm r)"
| "fits (DealerTurnCb roomId b) h a r =
     (b = a \<and> gameState r = Dealer \<and> dealerTurn (timers r) = Some h)"
| "fits (NextRoundCb roomId b n) h a r =
     (b = a \<and> gameState r = Result \<and> countdownTimer (timers r) = Some h)"
| "fits (FinalRankingCb roomId) h a r = (gameState r = Result)"


text \<open>
  \<open>orderly s\<close>, which holds at the start and which every event keeps: every armed timer
  has a handle that was handed out and fits its room; a room has one armed timer at most,
  or the two of the betting phase; a player who is playing is in a room in the action
  phase, with a bet and not eliminated; the room objects of \<open>rooms\<close> were handed out, each
  under one id.
\<close>

definition forBets :: "callback \<Rightarrow> bool" where
  "forBets cb = (case cb of BetCountdownCb _ _ \<Rightarrow> True | BetTimeoutCb _ _ \<Rightarrow> True | _ \<Rightarrow> False)"




text \<open>
  A room \<open>r\<close> in the dealer phase of round 1, as \<open>dealerTurn\<close> leaves it: the dealer's
  interval is armed and recorded.
\<close>

definition dealerTable :: "(sid \<times> player) list \<Rightarrow> server" where
  "dealerTable ps = start\<lparr>rooms := [''r'' \<mapsto> 0],
     heap := (heap start)(0 := \<lparr>players = ps, gameState = Dealer, round = 1,
        dealer = \<lparr>hand = [Card Spades (Num 9), Card Spades (Num 8)], score = 17\<rparr>,
        deck = take 46 orderedDeck,
        timers = noTimers\<lparr>betCountdown := Some 0, betTimeout := Some 1, actionTimer := Some 2,
                   dealerTurn := Some 4\<rparr>\<rparr>),
     pending := [4 \<mapsto> (DealerTurnCb ''r'' 0, 1500)],
     nextAddr := 1, nextHandle := 5\<rparr>"

text \<open>What the handlers and callbacks can see of room \<open>r\<close> at address 0: all but the log.\<close>

definition look :: "server \<Rightarrow> addr option \<times> room \<times> (handle \<Rightarrow> (callback \<times> nat) option) \<times> addr \<times> handle" where
  "look s = (rooms s ''r'', heap s 0, pending s, nextAddr s, nextHandle s)"

text \<open>\<open>trail obs es s\<close>: what \<open>obs\<close> sees after each event of \<open>es\<close>, run from \<open>s\<close>.\<close>

fun trail :: "(server \<Rightarrow> 'o) \<Rightarrow> event list \<Rightarrow> server \<Rightarrow> 'o list" where
  "trail obs [] s = []"
| "trail obs (e # es) s = (case step e s of None \<Rightarrow> [] | Some s' \<Rightarrow> obs s' # trail obs es s')"



definition seats :: "addr \<Rightarrow> server \<Rightarrow> phase \<times> (sid \<times> int \<times> bool) list" where
  "seats a s = (gameState (heap s a),
     map (\<lambda>(pid, p). (pid, chips p, isEliminated p)) (players (heap s a)))"


section \<open>Scoring\<close>

lemma tally_acc:
  "tally cards (s, a) = (s + others cards + 11 * aces cards, a + aces cards)"
proof (induction cards arbitrary: s a)
  case Nil
  show ?case by (simp add: others_def aces_def)
next
  case (Cons c cs)
  show ?case
    by (cases "val c") (simp_all add: Cons.IH others_def aces_def)
qed

lemma demote_shape:
  "\<exists>d\<le>a. demote s a = s - 10 * d \<and> (d < a \<longrightarrow> s - 10 * d \<le> 21) \<and> (\<forall>j<d. 21 < s - 10 * j)"
proof (induction s a rule: demote.induct)
  case (1 score aceCount)
  show ?case
  proof (cases "score > 21 \<and> aceCount > 0")
    case False
    then have "demote score aceCount = score"
      by (subst demote.simps) auto
    with False show ?thesis
      by (intro exI [of _ 0]) auto
  next
    case True
    from "1" [OF True] obtain d where d: "d \<le> aceCount - 1"
      "demote (score - 10) (aceCount - 1) = score - 10 - 10 * d"
      "d < aceCount - 1 \<longrightarrow> score - 10 - 10 * d \<le> 21"
      "\<forall>j<d. 21 < score - 10 - 10 * j"
      by blast
    have eq: "demote score aceCount = score - 10 * Suc d"
      using True d(2) by (subst demote.simps) simp
    have below: "\<forall>j<Suc d. 21 < score - 10 * j"
    proof (intro allI impI)
      fix j assume "j < Suc d"
      show "21 < score - 10 * j"
      proof (cases j)
        case 0
        with True show ?thesis by simp
      next
        case (Suc k)
        with \<open>j < Suc d\<close> d(4) have "21 < score - 10 - 10 * k" by simp
        with Suc show ?thesis by simp
      qed
    qed
    have "Suc d \<le> aceCount" using True d(1) by arith
    moreover have "Suc d < aceCount \<longrightarrow> score - 10 * Suc d \<le> 21"
      using d(3) by simp
    ultimately show ?thesis
      using eq below by blast
  qed
qed


section \<open>Basic facts about the small steps\<close>

lemma emit_fields [simp]:
  "rooms (emit e s) = rooms s" "heap (emit e s) = heap s" "pending (emit e s) = pending s"
  "nextHandle (emit e s) = nextHandle s" "nextAddr (emit e s) = nextAddr s"
  "out (emit e s) = out s @ [e]"
  by (simp_all add: emit_def)

lemma socketJoin_fields [simp]:
  "rooms (socketJoin sid r s) = rooms s" "heap (socketJoin sid r s) = heap s"
  "pending (socketJoin sid r s) = pending s" "nextHandle (socketJoin sid r s) = nextHandle s"
  "nextAddr (socketJoin sid r s) = nextAddr s" "out (socketJoin sid r s) = out s"
  by (simp_all add: socketJoin_def)

lemma leaveAll_fields [simp]:
  "rooms (leaveAll sid s) = rooms s" "heap (leaveAll sid s) = heap s"
  "pending (leaveAll sid s) = pending s" "nextHandle (leaveAll sid s) = nextHandle s"
  "nextAddr (leaveAll sid s) = nextAddr s" "out (leaveAll sid s) = out s"
  "joined (leaveAll sid s) sid = []"
  by (simp_all add: leaveAll_def)

lemma disconnect_closed [simp]: "disconnect sid [] s = Some s"
  by (simp add: disconnect_def getRoomIdFromSocket_def)

lemma step_Disconnect: "step (Disconnect sid) s = Some (leaveAll sid s)"
  by simp

lemma modify_fields [simp]:
  "rooms (modify a f s) = rooms s" "heap (modify a f s) = (heap s)(a := f (heap s a))"
  "pending (modify a f s) = pending s" "nextHandle (modify a f s) = nextHandle s"
  "nextAddr (modify a f s) = nextAddr s" "out (modify a f s) = out s"
  by (simp_all add: modify_def)

lemma clearTimer_fields [simp]:
  "rooms (clearTimer h s) = rooms s" "heap (clearTimer h s) = heap s"
  "nextHandle (clearTimer h s) = nextHandle s" "nextAddr (clearTimer h s) = nextAddr s"
  "out (clearTimer h s) = out s"
  by (simp_all add: clearTimer_def split: option.splits)

lemma clearTimer_pending:
  "pending (clearTimer h s) k = (if h = Some k then None else pending s k)"
  by (auto simp: clearTimer_def split: option.splits)

lemma clearAllTimers_fields [simp]:
  "rooms (clearAllTimers r s) = rooms s" "heap (clearAllTimers r s) = heap s"
  "nextHandle (clearAllTimers r s) = nextHandle s" "nextAddr (clearAllTimers r s) = nextAddr s"
  "out (clearAllTimers r s) = out s"
  by (simp_all add: clearAllTimers_def Let_def split: option.splits)

lemma clearAllTimers_pending:
  "rooms s r = Some a \<Longrightarrow>
   pending (clearAllTimers r s) k =
     (if Some k \<in> {betCountdown (timers (heap s a)), betTimeout (timers (heap s a)),
                     actionTimer (timers (heap s a)), dealerTurn (timers (heap s a)),
                     countdownTimer (timers (heap s a))}
      then None else pending s k)"
  by (simp add: clearAllTimers_def Let_def clearTimer_pending)

lemma setTimer_fields [simp]:
  "fst (setTimer cb ms s) = nextHandle s"
  "rooms (snd (setTimer cb ms s)) = rooms s" "heap (snd (setTimer cb ms s)) = heap s"
  "pending (snd (setTimer cb ms s)) = (pending s)(nextHandle s \<mapsto> (cb, ms))"
  "nextHandle (snd (setTimer cb ms s)) = Suc (nextHandle s)"
  "nextAddr (snd (setTimer cb ms s)) = nextAddr s" "out (snd (setTimer cb ms s)) = out s"
  by (simp_all add: setTimer_def)

lemma project_shown:
  "gameState r \<noteq> ActionPhase \<Longrightarrow>
   project r = Some \<lparr>cPlayers = players r, cGameState = gameState r, cRound = round r,
     cDealerHand = map Face (hand (dealer r)), cDealerScore = score (dealer r)\<rparr>"
  by (simp add: project_def)

lemma project_hidden:
  "gameState r = ActionPhase \<Longrightarrow> hand (dealer r) = c # cs \<Longrightarrow>
   project r = Some \<lparr>cPlayers = players r, cGameState = ActionPhase, cRound = round r,
     cDealerHand = [Face c, Hidden], cDealerScore = calculateScore [c]\<rparr>"
  by (simp add: project_def)

lemma project_defined:
  "gameState r \<noteq> ActionPhase \<or> hand (dealer r) \<noteq> [] \<Longrightarrow> \<exists>v. project r = Some v"
  by (cases "hand (dealer r)") (auto simp: project_def)

lemma updateGameState_emits:
  assumes "updateGameState roomId s = Some s'" and "rooms s roomId = Some a"
  shows "\<exists>v. project (heap s a) = Some v \<and> s' = emit (GameStateUpdate roomId v) s"
  using assms by (auto simp: updateGameState_def split: option.splits)

lemma updateGameState_defined:
  assumes "rooms s roomId = Some a"
    and "gameState (heap s a) \<noteq> ActionPhase \<or> hand (dealer (heap s a)) \<noteq> []"
  shows "\<exists>v. project (heap s a) = Some v \<and> updateGameState roomId s = Some (emit (GameStateUpdate roomId v) s)"
  using assms project_defined [of "heap s a"] by (auto simp: updateGameState_def)

lemma determineWinner_players:
  assumes "rooms s roomId = Some a"
  shows "\<exists>s'. determineWinner roomId s = Some s'
     \<and> rooms s' = rooms s
     \<and> gameState (heap s' a) = Result
     \<and> dealer (heap s' a) = dealer (heap s a)
     \<and> players (heap s' a) =
         map (\<lambda>(pid, p). (pid, settle (score (dealer (heap s a))) p)) (players (heap s a))"
proof -
  let ?s0 = "modify a (\<lambda>r. mapPlayers (settle (score (dealer r))) (r\<lparr>gameState := Result\<rparr>)) s"
  have r0: "rooms ?s0 roomId = Some a" using assms by simp
  have "gameState (heap ?s0 a) \<noteq> ActionPhase" by (simp add: mapPlayers_def)
  with updateGameState_defined [OF r0] obtain v where
    u: "updateGameState roomId ?s0 = Some (emit (GameStateUpdate roomId v) ?s0)"
    by blast
  show ?thesis
    using assms u
    by (simp add: determineWinner_def mapPlayers_def split_beta)
qed

section \<open>Dealing\<close>

lemma draw_Some:
  "d \<noteq> [] \<Longrightarrow> draw cards d = Some (cards @ [last d], butlast d)"
  by (simp add: draw_def dealCard_def)

lemma draw_SomeD:
  "draw cards d = Some (cards', d') \<Longrightarrow> d \<noteq> [] \<and> cards' = cards @ [last d] \<and> d' = butlast d"
  by (auto simp: draw_def dealCard_def split: if_splits)

lemma dealtTo_live:
  assumes "dealtTo p p'" and "bet p > 0" and "\<not> isEliminated p"
  shows "bet p' = bet p \<and> chips p' = chips p \<and> name p' = name p \<and> result p' = result p
     \<and> isEliminated p' = isEliminated p \<and> status p' = StPlaying
     \<and> score p' = calculateScore (hand p') \<and> length (hand p') = length (hand p) + 2"
proof -
  from assms have eq: "p' = p\<lparr>hand := hand p', score := calculateScore (hand p'), status := StPlaying\<rparr>"
    and len: "length (hand p') = length (hand p) + 2"
    by (simp_all add: dealtTo_def)
  show ?thesis
    using arg_cong [OF eq, of bet] arg_cong [OF eq, of chips] arg_cong [OF eq, of name]
      arg_cong [OF eq, of result] arg_cong [OF eq, of isEliminated] arg_cong [OF eq, of status]
      arg_cong [OF eq, of score] len
    by simp
qed

lemma dealtTo_idle:
  assumes "dealtTo p p'" and "\<not> (bet p > 0 \<and> \<not> isEliminated p)"
  shows "p' = (if isEliminated p then p else p\<lparr>status := StStand\<rparr>)"
  using assms by (simp add: dealtTo_def)

lemma dealPlayers_rel:
  "dealPlayers ps d = Some (ps', d') \<Longrightarrow>
   list_all2 (\<lambda>x y. fst y = fst x \<and> dealtTo (snd x) (snd y)) ps ps'"
proof (induction ps arbitrary: d ps' d')
  case Nil
  then show ?case by simp
next
  case (Cons x ps)
  obtain k p where x: "x = (k, p)" by (cases x)
  show ?case
  proof (cases "bet p > 0 \<and> \<not> isEliminated p")
    case True
    from Cons.prems True x obtain h1 d1 h2 d2 qs d3 where
      a: "draw (hand p) d = Some (h1, d1)" and b: "draw h1 d1 = Some (h2, d2)"
      and c: "dealPlayers ps d2 = Some (qs, d3)"
      and r: "ps' = (k, p\<lparr>hand := h2, score := calculateScore h2, status := StPlaying\<rparr>) # qs"
      by (auto split: Option.bind_splits)
    from draw_SomeD [OF a] draw_SomeD [OF b] have h2: "h2 = hand p @ [last d, last d1]"
      by simp
    have "dealtTo p (p\<lparr>hand := h2, score := calculateScore h2, status := StPlaying\<rparr>)"
      using True by (simp add: dealtTo_def h2)
    with Cons.IH [OF c] show ?thesis by (simp add: r x)
  next
    case False
    from Cons.prems False x obtain qs d3 where
      c: "dealPlayers ps d = Some (qs, d3)"
      and r: "ps' = (k, if \<not> isEliminated p then p\<lparr>status := StStand\<rparr> else p) # qs"
      by (auto split: Option.bind_splits)
    have "dealtTo p (if \<not> isEliminated p then p\<lparr>status := StStand\<rparr> else p)"
      using False by (auto simp: dealtTo_def)
    with Cons.IH [OF c] show ?thesis by (simp add: r x)
  qed
qed

lemma dealPlayers_ok:
  "2 * length ps \<le> length d \<Longrightarrow>
   \<exists>ps' d'. dealPlayers ps d = Some (ps', d') \<and> length d \<le> length d' + 2 * length ps"
proof (induction ps arbitrary: d)
  case Nil
  then show ?case by simp
next
  case (Cons x ps)
  obtain k p where x: "x = (k, p)" by (cases x)
  show ?case
  proof (cases "bet p > 0 \<and> \<not> isEliminated p")
    case True
    from Cons.prems have d: "d \<noteq> []" "butlast d \<noteq> []"
      by (auto simp: butlast_conv_take)
    have "2 * length ps \<le> length (butlast (butlast d))"
      using Cons.prems by simp
    from Cons.IH [OF this] obtain qs d3 where
      "dealPlayers ps (butlast (butlast d)) = Some (qs, d3)"
      "length (butlast (butlast d)) \<le> length d3 + 2 * length ps"
      by blast
    with True d show ?thesis
      by (simp add: x draw_Some)
  next
    case False
    from Cons.prems have "2 * length ps \<le> length d" by simp
    from Cons.IH [OF this] obtain qs d3 where
      "dealPlayers ps d = Some (qs, d3)" "length d \<le> length d3 + 2 * length ps"
      by blast
    with False show ?thesis
      by (auto simp: x)
  qed
qed

lemma rel_map_of:
  assumes "list_all2 (\<lambda>x y. fst y = fst x \<and> R (snd x) (snd y)) ps ps'"
    and "map_of ps k = Some p"
  shows "\<exists>p'. map_of ps' k = Some p' \<and> R p p'"
  using assms by (induction rule: list_all2_induct) (auto split: if_splits)

lemma rel_keys:
  "list_all2 (\<lambda>x y. fst y = fst x \<and> R (snd x) (snd y)) ps ps' \<Longrightarrow> map fst ps' = map fst ps"
  by (induction rule: list_all2_induct) auto

lemma startActionPhase_result:
  assumes "rooms s roomId = Some a" and "hand (dealer (heap s a)) \<noteq> []"
  shows "\<exists>v s'. startActionPhase roomId s = Some s'
     \<and> rooms s' = rooms s \<and> out s' = out s @ [GameStateUpdate roomId v]
     \<and> pending s' = (pending s)(nextHandle s \<mapsto> (ActionTimerCb roomId a TURN_TIME, 1000))
     \<and> nextHandle s' = Suc (nextHandle s)
     \<and> heap s' = (heap s)(a := (heap s a)\<lparr>gameState := ActionPhase,
          timers := (timers (heap s a))\<lparr>actionTimer := Some (nextHandle s)\<rparr>\<rparr>)"
proof -
  let ?s0 = "modify a (\<lambda>r. r\<lparr>gameState := ActionPhase\<rparr>) s"
  have "rooms ?s0 roomId = Some a" "hand (dealer (heap ?s0 a)) \<noteq> []"
    using assms by simp_all
  from updateGameState_defined [OF this(1)] this(2) obtain v where
    "updateGameState roomId ?s0 = Some (emit (GameStateUpdate roomId v) ?s0)"
    by blast
  then show ?thesis
    using assms(1)
    by (simp add: startActionPhase_def split_beta)
qed

lemma startActionPhase_out:
  assumes "startActionPhase roomId s = Some s'" and "rooms s roomId = Some a"
  shows "length (out s') = Suc (length (out s))"
proof -
  from assms obtain s1 where
    u: "updateGameState roomId (modify a (\<lambda>r. r\<lparr>gameState := ActionPhase\<rparr>) s) = Some s1"
    and s': "s' = modify a (\<lambda>r. r\<lparr>timers := (timers r)\<lparr>actionTimer := Some (nextHandle s1)\<rparr>\<rparr>)
                   (snd (setTimer (ActionTimerCb roomId a TURN_TIME) 1000 s1))"
    by (auto simp: startActionPhase_def split_beta split: Option.bind_splits)
  from updateGameState_emits [OF u] assms(2) obtain v where
    "s1 = emit (GameStateUpdate roomId v) (modify a (\<lambda>r. r\<lparr>gameState := ActionPhase\<rparr>) s)"
    by auto
  then show ?thesis by (simp add: s')
qed

lemma dealCards_out:
  assumes "dealCards roomId s = Some s'" and "rooms s roomId = Some a"
    and "gameState (heap s a) = Betting"
  shows "length (out s') = Suc (length (out s))"
proof -
  from assms obtain s0 where
    "startActionPhase roomId s0 = Some s'" "rooms s0 roomId = Some a" "out s0 = out s"
    by (auto simp: dealCards_def Let_def split: Option.bind_splits)
  from startActionPhase_out [OF this(1,2)] this(3) show ?thesis by simp
qed

lemma dealCards_result:
  assumes "rooms s roomId = Some a" and "gameState (heap s a) = Betting"
    and "2 * length (players (heap s a)) + 2 \<le> length (deck (heap s a))"
  shows "\<exists>s' v. dealCards roomId s = Some s'
     \<and> rooms s' = rooms s
     \<and> gameState (heap s' a) = ActionPhase
     \<and> round (heap s' a) = round (heap s a)
     \<and> list_all2 (\<lambda>x y. fst y = fst x \<and> dealtTo (snd x) (snd y))
          (players (heap s a)) (players (heap s' a))
     \<and> length (hand (dealer (heap s' a))) = length (hand (dealer (heap s a))) + 2
     \<and> score (dealer (heap s' a)) = calculateScore (hand (dealer (heap s' a)))
     \<and> pending s' = (pending (clearAllTimers roomId s))
          (nextHandle s \<mapsto> (ActionTimerCb roomId a TURN_TIME, 1000))
     \<and> out s' = out s @ [GameStateUpdate roomId v]"
proof -
  let ?r = "heap s a"
  from assms(3) have "2 * length (players ?r) \<le> length (deck ?r)" by simp
  from dealPlayers_ok [OF this] obtain ps d1 where
    dp: "dealPlayers (players ?r) (deck ?r) = Some (ps, d1)"
    and len: "length (deck ?r) \<le> length d1 + 2 * length (players ?r)"
    by blast
  from len assms(3) have d1: "d1 \<noteq> []" "butlast d1 \<noteq> []"
    by (auto simp: butlast_conv_take)
  let ?h = "hand (dealer ?r) @ [last d1] @ [last (butlast d1)]"
  let ?s0 = "modify a (\<lambda>r. r\<lparr>players := ps, deck := butlast (butlast d1),
               dealer := (dealer r)\<lparr>hand := ?h, score := calculateScore ?h\<rparr>\<rparr>) (clearAllTimers roomId s)"
  have dc: "dealCards roomId s = startActionPhase roomId ?s0"
    using assms(1,2) dp d1 by (simp add: dealCards_def Let_def draw_Some)
  have "rooms ?s0 roomId = Some a" "hand (dealer (heap ?s0 a)) \<noteq> []"
    using assms(1) by simp_all
  from startActionPhase_result [OF this] obtain v s' where
    s': "startActionPhase roomId ?s0 = Some s'" "rooms s' = rooms ?s0"
      "out s' = out ?s0 @ [GameStateUpdate roomId v]"
      "pending s' = (pending ?s0)(nextHandle ?s0 \<mapsto> (ActionTimerCb roomId a TURN_TIME, 1000))"
      "heap s' = (heap ?s0)(a := (heap ?s0 a)\<lparr>gameState := ActionPhase,
          timers := (timers (heap ?s0 a))\<lparr>actionTimer := Some (nextHandle ?s0)\<rparr>\<rparr>)"
    by blast
  have "list_all2 (\<lambda>x y. fst y = fst x \<and> dealtTo (snd x) (snd y)) (players ?r) (players (heap s' a))"
    using dealPlayers_rel [OF dp] by (simp add: s'(5))
  then show ?thesis
    using dc s' by simp
qed

section \<open>Placing a bet\<close>

lemma isDigit_not_white: "isDigit c \<Longrightarrow> \<not> isWhite c \<and> c \<noteq> CHR ''-'' \<and> c \<noteq> CHR ''+''"
  by (auto simp: isDigit_def isWhite_def)

lemma parseInt_numeral:
  assumes "positiveInteger amount"
  shows "parseInt amount = Some (int (digitsValue amount))"
proof -
  from assms obtain c cs where a: "amount = c # cs" "isDigit c" "list_all isDigit cs"
    by (cases amount) (auto simp: positiveInteger_def)
  have t: "takeWhile isDigit cs = cs"
    using a(3) by (simp add: list_all_iff)
  show ?thesis
    using isDigit_not_white [OF a(2)] a(2) by (simp add: parseInt_def a(1) t)
qed

lemma placeBet_rejected:
  assumes "\<not> (\<exists>a player n. betGuard sid roomId amount s a player n)"
    and "rooms s roomId = None \<longrightarrow> \<not> inherited roomId"
  shows "placeBet sid roomId amount s = Some s"
  using assms by (auto simp: placeBet_def betGuard_def split: option.splits)

lemma placeBet_inherited:
  "rooms s roomId = None \<Longrightarrow> inherited roomId \<Longrightarrow> placeBet sid roomId amount s = None"
  by (simp add: placeBet_def)

lemma placeBet_unfold:
  assumes "betGuard sid roomId amount s a player n"
  shows "placeBet sid roomId amount s =
     (if allPlayersBetted (heap (withBet sid n a s) a) then
        dealCards roomId
          (clearTimer (betCountdown (timers (heap s a))) (clearTimer (betTimeout (timers (heap s a)))
             (withBet sid n a s)))
      else updateGameState roomId (withBet sid n a s))"
  using assms by (simp add: placeBet_def betGuard_def withBet_def Let_def)

lemma withBet_fields [simp]:
  "rooms (withBet sid n a s) = rooms s" "pending (withBet sid n a s) = pending s"
  "out (withBet sid n a s) = out s" "nextHandle (withBet sid n a s) = nextHandle s"
  "gameState (heap (withBet sid n a s) a) = gameState (heap s a)"
  "deck (heap (withBet sid n a s) a) = deck (heap s a)"
  "dealer (heap (withBet sid n a s) a) = dealer (heap s a)"
  "timers (heap (withBet sid n a s) a) = timers (heap s a)"
  "round (heap (withBet sid n a s) a) = round (heap s a)"
  "players (heap (withBet sid n a s) a) =
     AList.map_entry sid (\<lambda>p. p\<lparr>bet := n, status := StBetted\<rparr>) (players (heap s a))"
  by (simp_all add: withBet_def)

lemma length_map_entry [simp]: "length (AList.map_entry k f ps) = length ps"
  by (induction ps) auto


lemma list_all_map_entry:
  assumes "distinct (map fst ps)" and "map_of ps sid = Some player"
  shows "list_all Q (AList.map_entry sid f ps) \<longleftrightarrow>
     Q (sid, f player) \<and> (\<forall>(k, p)\<in>set ps. k \<noteq> sid \<longrightarrow> Q (k, p))"
  using assms
proof (induction ps)
  case Nil
  then show ?case by simp
next
  case (Cons x ps)
  show ?case
  proof (cases "fst x = sid")
    case True
    with Cons.prems have "snd x = player" and "\<forall>k p. (k, p) \<in> set ps \<longrightarrow> k \<noteq> sid"
      by (auto simp: image_iff)
    with True show ?thesis
      by (cases x) (auto simp: list_all_iff)
  next
    case False
    with Cons.prems have "distinct (map fst ps)" "map_of ps sid = Some player"
      by (auto split: if_splits)
    from Cons.IH [OF this] False show ?thesis
      by (cases x) auto
  qed
qed

lemma placeBet_changes:
  assumes "betGuard sid roomId amount s a player n"
  shows "placeBet sid roomId amount s \<noteq> Some s"
proof
  assume same: "placeBet sid roomId amount s = Some s"
  from assms have r: "rooms s roomId = Some a" and g: "gameState (heap s a) = Betting"
    by (simp_all add: betGuard_def)
  show False
  proof (cases "allPlayersBetted (heap (withBet sid n a s) a)")
    case True
    let ?s2 = "clearTimer (betCountdown (timers (heap s a))) (clearTimer (betTimeout (timers (heap s a)))
             (withBet sid n a s))"
    from True same have "dealCards roomId ?s2 = Some s"
      by (simp add: placeBet_unfold [OF assms])
    moreover have "rooms ?s2 roomId = Some a" "gameState (heap ?s2 a) = Betting"
      using r g by simp_all
    ultimately have "length (out s) = Suc (length (out ?s2))"
      by (rule dealCards_out)
    then show False by simp
  next
    case False
    with same have u: "updateGameState roomId (withBet sid n a s) = Some s"
      by (simp add: placeBet_unfold [OF assms])
    from updateGameState_emits [OF u] r obtain v where
      "s = emit (GameStateUpdate roomId v) (withBet sid n a s)"
      by auto
    then have "out s = out s @ [GameStateUpdate roomId v]"
      by (metis emit_fields(6) withBet_fields(3))
    then show False by simp
  qed
qed

lemma startActionPhase_players:
  assumes "startActionPhase roomId s = Some s'" and "rooms s roomId = Some a"
  shows "players (heap s' a) = players (heap s a) \<and> gameState (heap s' a) = ActionPhase"
proof -
  from assms obtain s1 where
    u: "updateGameState roomId (modify a (\<lambda>r. r\<lparr>gameState := ActionPhase\<rparr>) s) = Some s1"
    and s': "s' = modify a (\<lambda>r. r\<lparr>timers := (timers r)\<lparr>actionTimer := Some (nextHandle s1)\<rparr>\<rparr>)
                   (snd (setTimer (ActionTimerCb roomId a TURN_TIME) 1000 s1))"
    by (auto simp: startActionPhase_def split_beta split: Option.bind_splits)
  from updateGameState_emits [OF u] assms(2) obtain v where
    "s1 = emit (GameStateUpdate roomId v) (modify a (\<lambda>r. r\<lparr>gameState := ActionPhase\<rparr>) s)"
    by auto
  then show ?thesis by (simp add: s')
qed

lemma dealCards_players:
  assumes "dealCards roomId s = Some s'" and "rooms s roomId = Some a"
    and "gameState (heap s a) = Betting"
  shows "list_all2 (\<lambda>x y. fst y = fst x \<and> dealtTo (snd x) (snd y))
           (players (heap s a)) (players (heap s' a)) \<and> gameState (heap s' a) = ActionPhase"
proof -
  from assms obtain ps d1 s0 where
    dp: "dealPlayers (players (heap s a)) (deck (heap s a)) = Some (ps, d1)"
    and st: "startActionPhase roomId s0 = Some s'"
    and s0: "rooms s0 roomId = Some a" "players (heap s0 a) = ps"
    by (auto simp: dealCards_def Let_def split: Option.bind_splits)
  from startActionPhase_players [OF st s0(1)] s0(2) dealPlayers_rel [OF dp]
  show ?thesis by simp
qed

lemma placeBet_effect:
  assumes "betGuard sid roomId amount s a player n"
    and "placeBet sid roomId amount s = Some s'"
  shows "\<exists>p'. map_of (players (heap s' a)) sid = Some p' \<and> bet p' = n \<and> chips p' = chips player
     \<and> isEliminated p' = isEliminated player
     \<and> (if gameState (heap s' a) = Betting then status p' = StBetted \<and> hand p' = hand player
         else gameState (heap s' a) = ActionPhase \<and> status p' = StPlaying)"
proof -
  from assms(1) have r: "rooms s roomId = Some a" and g: "gameState (heap s a) = Betting"
    and m: "map_of (players (heap s a)) sid = Some player" and e: "\<not> isEliminated player"
    and n: "0 < n"
    by (simp_all add: betGuard_def)
  let ?p1 = "player\<lparr>bet := n, status := StBetted\<rparr>"
  have m1: "map_of (players (heap (withBet sid n a s) a)) sid = Some ?p1"
    using m by (simp add: AList.map_of_map_entry)
  show ?thesis
  proof (cases "allPlayersBetted (heap (withBet sid n a s) a)")
    case True
    let ?s2 = "clearTimer (betCountdown (timers (heap s a))) (clearTimer (betTimeout (timers (heap s a)))
             (withBet sid n a s))"
    from True assms(2) have dc: "dealCards roomId ?s2 = Some s'"
      by (simp add: placeBet_unfold [OF assms(1)])
    have "rooms ?s2 roomId = Some a" "gameState (heap ?s2 a) = Betting"
      using r g by simp_all
    from dealCards_players [OF dc this]
    have rel: "list_all2 (\<lambda>x y. fst y = fst x \<and> dealtTo (snd x) (snd y))
           (players (heap (withBet sid n a s) a)) (players (heap s' a))"
      and ph: "gameState (heap s' a) = ActionPhase"
      by simp_all
    from rel_map_of [OF rel m1] obtain p' where
      p': "map_of (players (heap s' a)) sid = Some p'" "dealtTo ?p1 p'"
      by blast
    from dealtTo_live [OF p'(2)] e n
    have "bet p' = n \<and> chips p' = chips player \<and> isEliminated p' = isEliminated player
        \<and> status p' = StPlaying"
      by simp
    with p'(1) ph show ?thesis by auto
  next
    case False
    with assms(2) have u: "updateGameState roomId (withBet sid n a s) = Some s'"
      by (simp add: placeBet_unfold [OF assms(1)])
    from updateGameState_emits [OF u] r obtain v where
      "s' = emit (GameStateUpdate roomId v) (withBet sid n a s)"
      by auto
    with m1 g show ?thesis by simp
  qed
qed

lemma allPlayersBetted_withBet:
  assumes "distinct (map fst (players (heap s a)))" and "map_of (players (heap s a)) sid = Some player"
  shows "allPlayersBetted (heap (withBet sid n a s) a) \<longleftrightarrow>
     (\<forall>(k, p)\<in>set (players (heap s a)). k \<noteq> sid \<longrightarrow> status p = StBetted \<or> isEliminated p)"
  by (simp add: allPlayersBetted_def list_all_map_entry [OF assms])


lemma placeBet_waits:
  assumes "betGuard sid roomId amount s a player n"
    and "\<not> allPlayersBetted (heap (withBet sid n a s) a)"
  shows "\<exists>v. placeBet sid roomId amount s = Some (emit (GameStateUpdate roomId v) (withBet sid n a s))"
proof -
  from assms(1) have r: "rooms (withBet sid n a s) roomId = Some a"
    and g: "gameState (heap (withBet sid n a s) a) \<noteq> ActionPhase"
    by (simp_all add: betGuard_def)
  from updateGameState_defined [OF r] g assms(2) show ?thesis
    by (auto simp: placeBet_unfold [OF assms(1)])
qed

lemma placeBet_deals:
  assumes "betGuard sid roomId amount s a player n"
    and "allPlayersBetted (heap (withBet sid n a s) a)"
    and "2 * length (players (heap s a)) + 2 \<le> length (deck (heap s a))"
  shows "\<exists>s'. placeBet sid roomId amount s = Some s' \<and> gameState (heap s' a) = ActionPhase
     \<and> (\<forall>h. Some h \<in> {betTimeout (timers (heap s a)), betCountdown (timers (heap s a))}
            \<longrightarrow> \<not> isBetTimer (pending s' h))
     \<and> list_all2 (\<lambda>x y. fst y = fst x \<and> dealtTo (snd x) (snd y))
          (players (heap (withBet sid n a s) a)) (players (heap s' a))
     \<and> length (hand (dealer (heap s' a))) = length (hand (dealer (heap s a))) + 2"
proof -
  let ?s2 = "clearTimer (betCountdown (timers (heap s a))) (clearTimer (betTimeout (timers (heap s a)))
             (withBet sid n a s))"
  from assms(1) have r: "rooms ?s2 roomId = Some a" and g: "gameState (heap ?s2 a) = Betting"
    by (simp_all add: betGuard_def)
  have d: "2 * length (players (heap ?s2 a)) + 2 \<le> length (deck (heap ?s2 a))"
    using assms(3) by simp
  from dealCards_result [OF r g d] obtain s' v where
    s': "dealCards roomId ?s2 = Some s'" "gameState (heap s' a) = ActionPhase"
      "list_all2 (\<lambda>x y. fst y = fst x \<and> dealtTo (snd x) (snd y))
          (players (heap ?s2 a)) (players (heap s' a))"
      "length (hand (dealer (heap s' a))) = length (hand (dealer (heap ?s2 a))) + 2"
      "pending s' = (pending (clearAllTimers roomId ?s2))
          (nextHandle ?s2 \<mapsto> (ActionTimerCb roomId a TURN_TIME, 1000))"
    by blast
  have gone: "\<not> isBetTimer (pending s' h)"
    if "Some h \<in> {betTimeout (timers (heap s a)), betCountdown (timers (heap s a))}" for h
  proof (cases "h = nextHandle ?s2")
    case True
    then show ?thesis by (simp add: s'(5) isBetTimer_def)
  next
    case False
    with that have "pending s' h = None"
      by (auto simp: s'(5) clearAllTimers_pending [OF r])
    then show ?thesis by (simp add: isBetTimer_def)
  qed
  have "placeBet sid roomId amount s = Some s'"
    using assms(2) s'(1) by (simp add: placeBet_unfold [OF assms(1)])
  with s'(2,3,4) gone show ?thesis by auto
qed

lemma bettingTable_fields [simp]:
  "rooms (bettingTable ps) ''r'' = Some 0"
  "players (heap (bettingTable ps) 0) = ps"
  "gameState (heap (bettingTable ps) 0) = Betting"
  "length (deck (heap (bettingTable ps) 0)) = 52"
  "timers (heap (bettingTable ps) 0) = noTimers\<lparr>betCountdown := Some 0, betTimeout := Some 1\<rparr>"
  "hand (dealer (heap (bettingTable ps) 0)) = []"
  by (simp_all add: bettingTable_def orderedDeck_def)

lemma parseInt_25: "parseInt ''25'' = Some 25"
  by (simp add: parseInt_def isWhite_def isDigit_def digitsValue_def)

lemmas run_defs = createRoom_def joinRoom_def requestStartGame_def startGame_def startRound_def
  placeBet_def hit_def stand_def disconnect_def dealCards_def startActionPhase_def
  checkAndEndActionPhase_def dealerTurnFn_def determineWinner_def fire_def updateGameState_def
  project_def clearAllTimers_def clearTimer_def setTimer_def emit_def modify_def mapPlayers_def
  createPlayer_def resetPlayer_def getRoomIdFromSocket_def allPlayersBetted_def allPlayersDone_def
  settle_def loses_def draw_def dealCard_def calculateScore_def demote.simps parseInt_def
  isWhite_def isDigit_def digitsValue_def start_def noTimers_def orderedDeck_def
  BET_TIME_def TURN_TIME_def RESULT_TIME_def MAX_ROUNDS_def DEALER_WAIT_TIME_def
  fullRanking_def sendRanking_def Let_def betsOf_def phaseOf_def
  socketJoin_def leaveAll_def inherited_def

section \<open>The all-done check\<close>

lemma dealerTurnFn_result:
  assumes "rooms s roomId = Some a"
  shows "\<exists>s' v. dealerTurnFn roomId s = Some s' \<and> rooms s' = rooms s
     \<and> gameState (heap s' a) = Dealer \<and> players (heap s' a) = players (heap s a)
     \<and> out s' = out s @ [GameStateUpdate roomId v]
     \<and> pending s' = (pending s)(nextHandle s \<mapsto> (DealerTurnCb roomId a, 1500))"
proof -
  let ?s0 = "modify a (\<lambda>r. r\<lparr>gameState := Dealer\<rparr>) s"
  have "rooms ?s0 roomId = Some a" "gameState (heap ?s0 a) \<noteq> ActionPhase"
    using assms by simp_all
  from updateGameState_defined [OF this(1)] this(2) obtain v where
    "updateGameState roomId ?s0 = Some (emit (GameStateUpdate roomId v) ?s0)"
    by blast
  then show ?thesis
    using assms by (simp add: dealerTurnFn_def split_beta)
qed

lemma check_afterCheck:
  assumes "rooms s1 roomId = Some a" and "gameState (heap s1 a) = ActionPhase"
    and "pending s1 = pending s" and "nextHandle s1 = nextHandle s"
    and "timers (heap s1 a) = timers (heap s a)"
  shows "afterCheck roomId a s (checkAndEndActionPhase roomId s1)
     \<and> heap (checkAndEndActionPhase roomId s1) = heap s1
     \<and> rooms (checkAndEndActionPhase roomId s1) = rooms s1"
proof (cases "allPlayersDone (heap s1 a)")
  case False
  with assms show ?thesis
    by (simp add: checkAndEndActionPhase_def afterCheck_def)
next
  case True
  let ?s' = "checkAndEndActionPhase roomId s1"
  have eq: "?s' = snd (setTimer (DealerWaitCb roomId) DEALER_WAIT_TIME
                  (emit (Notification roomId AllDecided)
                    (clearTimer (actionTimer (timers (heap s1 a))) s1)))"
    using assms(1,2) True by (simp add: checkAndEndActionPhase_def)
  have hp: "heap ?s' = heap s1" "rooms ?s' = rooms s1"
    by (simp_all add: eq)
  have pend: "pending ?s' = (pending (clearTimer (actionTimer (timers (heap s a))) s))
                          (nextHandle s \<mapsto> (DealerWaitCb roomId, DEALER_WAIT_TIME))"
    using assms(3,4,5) by (simp add: eq clearTimer_def split: option.splits)
  have fires: "\<exists>s''. fire (nextHandle s) newDeck members ?s' = Some s'' \<and> gameState (heap s'' a) = Dealer"
    for newDeck members
  proof -
    have "rooms (clearTimer (Some (nextHandle s)) ?s') roomId = Some a"
      using assms(1) by (simp add: hp)
    from dealerTurnFn_result [OF this] show ?thesis
      by (auto simp: fire_def pend)
  qed
  show ?thesis
    using True assms(2) fires pend by (simp add: afterCheck_def hp) (simp add: eq)
qed

lemma stand_result:
  assumes "rooms s roomId = Some a" and "map_of (players (heap s a)) sid = Some player"
    and "gameState (heap s a) = ActionPhase" and "status player = StPlaying"
    and "hand (dealer (heap s a)) \<noteq> []"
  shows "\<exists>s'. stand sid roomId s = Some s' \<and> afterCheck roomId a s s'
     \<and> players (heap s' a) = AList.map_entry sid (\<lambda>p. p\<lparr>status := StStand\<rparr>) (players (heap s a))"
proof -
  let ?s1 = "modify a (\<lambda>r. r\<lparr>players := AList.map_entry sid
                           (\<lambda>p. p\<lparr>status := StStand\<rparr>) (players r)\<rparr>) s"
  have r1: "rooms ?s1 roomId = Some a" and d1: "hand (dealer (heap ?s1 a)) \<noteq> []"
    using assms(1,5) by simp_all
  from updateGameState_defined [OF r1] d1 obtain v where
    u: "updateGameState roomId ?s1 = Some (emit (GameStateUpdate roomId v) ?s1)"
    by blast
  let ?s2 = "emit (GameStateUpdate roomId v) ?s1"
  have st: "stand sid roomId s = Some (checkAndEndActionPhase roomId ?s2)"
    using assms(1-4) u by (simp add: stand_def)
  have "rooms ?s2 roomId = Some a" "gameState (heap ?s2 a) = ActionPhase"
    "pending ?s2 = pending s" "nextHandle ?s2 = nextHandle s"
    "timers (heap ?s2 a) = timers (heap s a)"
    using assms(1,3) by simp_all
  from check_afterCheck [OF this] st show ?thesis
    by simp
qed

lemma hit_result:
  assumes "rooms s roomId = Some a" and "map_of (players (heap s a)) sid = Some player"
    and "gameState (heap s a) = ActionPhase" and "status player = StPlaying"
    and "hand (dealer (heap s a)) \<noteq> []" and "deck (heap s a) \<noteq> []"
  shows "\<exists>s'. hit sid roomId s = Some s' \<and> afterCheck roomId a s s'
     \<and> deck (heap s' a) = butlast (deck (heap s a))
     \<and> players (heap s' a) = AList.map_entry sid
          (\<lambda>p. p\<lparr>hand := hand player @ [last (deck (heap s a))],
                 score := calculateScore (hand player @ [last (deck (heap s a))]),
                 status := (if calculateScore (hand player @ [last (deck (heap s a))]) > 21
                            then StBust else status p)\<rparr>) (players (heap s a))"
proof -
  let ?h = "hand player @ [last (deck (heap s a))]"
  let ?s1 = "modify a (\<lambda>r. r\<lparr>deck := butlast (deck (heap s a)), players := AList.map_entry sid
                 (\<lambda>p. p\<lparr>hand := ?h, score := calculateScore ?h,
                    status := (if calculateScore ?h > 21 then StBust else status p)\<rparr>) (players r)\<rparr>) s"
  have r1: "rooms ?s1 roomId = Some a" and d1: "hand (dealer (heap ?s1 a)) \<noteq> []"
    using assms(1,5) by simp_all
  from updateGameState_defined [OF r1] d1 obtain v where
    u: "updateGameState roomId ?s1 = Some (emit (GameStateUpdate roomId v) ?s1)"
    by blast
  let ?s2 = "emit (GameStateUpdate roomId v) ?s1"
  have st: "hit sid roomId s = Some (checkAndEndActionPhase roomId ?s2)"
    using assms(1-4) u by (simp add: hit_def Let_def draw_Some [OF assms(6)])
  have "rooms ?s2 roomId = Some a" "gameState (heap ?s2 a) = ActionPhase"
    "pending ?s2 = pending s" "nextHandle ?s2 = nextHandle s"
    "timers (heap ?s2 a) = timers (heap s a)"
    using assms(1,3) by simp_all
  from check_afterCheck [OF this] st show ?thesis
    by simp
qed

text \<open>
  The body of the \<open>disconnect\<close> handler, for a \<open>socket.rooms\<close> that still lists the room: the
  player is removed and the check is made. A socket that closes never brings it that far:
  its \<open>socket.rooms\<close> is empty by then (\<open>step_Disconnect\<close>).
\<close>

lemma disconnect_result:
  assumes "getRoomIdFromSocket sid socketRooms = Some roomId" and "roomId \<noteq> []"
    and "rooms s roomId = Some a" and "map_of (players (heap s a)) sid = Some player"
    and "AList.delete sid (players (heap s a)) \<noteq> []"
    and "gameState (heap s a) = ActionPhase" and "hand (dealer (heap s a)) \<noteq> []"
  shows "\<exists>s'. disconnect sid socketRooms s = Some s' \<and> afterCheck roomId a s s'
     \<and> players (heap s' a) = AList.delete sid (players (heap s a))"
proof -
  let ?s1 = "modify a (\<lambda>r. r\<lparr>players := AList.delete sid (players r)\<rparr>) s"
  have r1: "rooms ?s1 roomId = Some a" and d1: "hand (dealer (heap ?s1 a)) \<noteq> []"
    using assms(3,7) by simp_all
  from updateGameState_defined [OF r1] d1 obtain v where
    u: "updateGameState roomId ?s1 = Some (emit (GameStateUpdate roomId v) ?s1)"
    by blast
  let ?s2 = "emit (GameStateUpdate roomId v) ?s1"
  have st: "disconnect sid socketRooms s = Some (checkAndEndActionPhase roomId ?s2)"
    using assms(1-5) u by (simp add: disconnect_def Let_def)
  have "rooms ?s2 roomId = Some a" "gameState (heap ?s2 a) = ActionPhase"
    "pending ?s2 = pending s" "nextHandle ?s2 = nextHandle s"
    "timers (heap ?s2 a) = timers (heap s a)"
    using assms(3,6) by simp_all
  from check_afterCheck [OF this] st show ?thesis
    by simp
qed

lemma actionTable_fields [simp]:
  "rooms (actionTable ps) ''r'' = Some 0"
  "players (heap (actionTable ps) 0) = ps"
  "gameState (heap (actionTable ps) 0) = ActionPhase"
  "hand (dealer (heap (actionTable ps) 0)) = [Card Spades (Num 9), Card Spades (Num 8)]"
  "nextHandle (actionTable ps) = 3"
  by (simp_all add: actionTable_def)

section \<open>Joining late and the bet deadline\<close>

lemma map_of_mapped:
  "map_of (map (\<lambda>(pid, p). (pid, f p)) ps) k = map_option f (map_of ps k)"
  by (induction ps) auto






section \<open>Elimination\<close>

lemma keeps_refl [simp]: "keeps k c s s"
  by (simp add: keeps_def)

lemma keeps_trans: "keeps k c s t \<Longrightarrow> keeps k c t u \<Longrightarrow> keeps k c s u"
  by (fastforce simp: keeps_def)

lemma keeps_same:
  "heap s' = heap s \<Longrightarrow> nextAddr s' = nextAddr s \<Longrightarrow> keeps k c s s'"
  by (simp add: keeps_def)

lemma keeps_modify:
  assumes "sidelined k c (heap s a) \<Longrightarrow> sidelined k c (f (heap s a))"
  shows "keeps k c s (modify a f s)"
  using assms by (simp add: keeps_def)

lemma sidelined_fields [simp]:
  "sidelined k c (r\<lparr>gameState := g\<rparr>) = sidelined k c r"
  "sidelined k c (r\<lparr>deck := d\<rparr>) = sidelined k c r"
  "sidelined k c (r\<lparr>dealer := h\<rparr>) = sidelined k c r"
  "sidelined k c (r\<lparr>timers := t\<rparr>) = sidelined k c r"
  "sidelined k c (r\<lparr>round := n\<rparr>) = sidelined k c r"
  by (simp_all add: sidelined_def)

lemma sidelined_mapPlayers:
  assumes "\<And>p. benched c p \<Longrightarrow> benched c (f p)" and "sidelined k c r"
  shows "sidelined k c (mapPlayers f r)"
  using assms by (auto simp: sidelined_def mapPlayers_def map_of_mapped split: option.splits)

lemma sidelined_map_entry:
  assumes "\<And>p. benched c p \<Longrightarrow> benched c (f p)" and "sidelined k c r"
  shows "sidelined k c (r\<lparr>players := AList.map_entry sid f (players r)\<rparr>)"
  using assms by (auto simp: sidelined_def AList.map_of_map_entry split: option.splits)

lemma sidelined_update:
  assumes "sid \<noteq> k" and "sidelined k c r"
  shows "sidelined k c (r\<lparr>players := AList.update sid v (players r)\<rparr>)"
  using assms by (auto simp: sidelined_def AList.update_conv' split: option.splits)

lemma sidelined_delete:
  assumes "sid \<noteq> k" and "sidelined k c r"
  shows "sidelined k c (r\<lparr>players := AList.delete sid (players r)\<rparr>)"
  using assms by (auto simp: sidelined_def AList.delete_conv' split: option.splits)

lemma sidelined_dealt:
  assumes "list_all2 (\<lambda>x y. fst y = fst x \<and> dealtTo (snd x) (snd y)) (players r) ps'"
    and "sidelined k c r"
  shows "sidelined k c (r'\<lparr>players := ps'\<rparr>)"
proof -
  from assms(2) obtain p where p: "map_of (players r) k = Some p" "benched c p"
    by (auto simp: sidelined_def split: option.splits)
  from rel_map_of [OF assms(1) p(1)] obtain p' where
    p': "map_of ps' k = Some p'" "dealtTo p p'"
    by blast
  from dealtTo_idle [OF p'(2)] p(2) have "p' = p"
    by (simp add: benched_def)
  with p' p(2) show ?thesis by (simp add: sidelined_def)
qed

lemma keeps_updateGameState:
  "updateGameState roomId s = Some s' \<Longrightarrow> keeps k c s s'"
  by (auto simp: updateGameState_def emit_def keeps_def split: option.splits if_splits)

lemma keeps_check: "keeps k c s (checkAndEndActionPhase roomId s)"
  by (auto simp: checkAndEndActionPhase_def keeps_def split: option.splits)

lemma keeps_emit [simp]: "keeps k c s (emit e s)"
  by (simp add: keeps_def)

lemma keeps_clearTimer [simp]: "keeps k c s (clearTimer h s)"
  by (simp add: keeps_def)

lemma keeps_clearAll [simp]: "keeps k c s (clearAllTimers r s)"
  by (simp add: keeps_def)

lemma keeps_setTimer [simp]: "keeps k c s (snd (setTimer cb ms s))"
  by (simp add: keeps_def)

lemma updateGameState_frame:
  "updateGameState roomId s = Some s' \<Longrightarrow>
   heap s' = heap s \<and> nextAddr s' = nextAddr s \<and> rooms s' = rooms s
   \<and> pending s' = pending s \<and> nextHandle s' = nextHandle s"
  by (auto simp: updateGameState_def split: option.splits if_splits)

lemma keeps_startActionPhase:
  assumes "startActionPhase roomId s = Some s'"
  shows "keeps k c s s'"
  using assms
  by (auto simp: startActionPhase_def split_beta keeps_def
      split: Option.bind_splits option.splits if_splits dest!: updateGameState_frame)

lemma keeps_dealCards:
  assumes "dealCards roomId s = Some s'"
  shows "keeps k c s s'"
proof (cases "\<exists>a. rooms s roomId = Some a \<and> gameState (heap s a) = Betting")
  case False
  with assms show ?thesis
    by (auto simp: dealCards_def split: option.splits if_splits)
next
  case True
  then obtain a where a: "rooms s roomId = Some a" "gameState (heap s a) = Betting"
    by blast
  with assms obtain ps d1 h2 d3 where
    dp: "dealPlayers (players (heap s a)) (deck (heap s a)) = Some (ps, d1)"
    and st: "startActionPhase roomId (modify a (\<lambda>r. r\<lparr>players := ps, deck := d3,
                          dealer := (dealer r)\<lparr>hand := h2, score := calculateScore h2\<rparr>\<rparr>)
                (clearAllTimers roomId s)) = Some s'"
    by (auto simp: dealCards_def Let_def split: Option.bind_splits)
  have "keeps k c s (modify a (\<lambda>r. r\<lparr>players := ps, deck := d3,
                          dealer := (dealer r)\<lparr>hand := h2, score := calculateScore h2\<rparr>\<rparr>)
                (clearAllTimers roomId s))"
    using sidelined_dealt [OF dealPlayers_rel [OF dp]]
    by (auto simp: keeps_def)
  from this keeps_startActionPhase [OF st] show ?thesis
    by (rule keeps_trans)
qed

lemma benched_reset: "benched c p \<Longrightarrow> benched c (resetPlayer p)"
  by (simp add: benched_def resetPlayer_def)

lemma benched_settle: "benched c p \<Longrightarrow> settle d p = p"
  by (simp add: benched_def settle_def)

lemma keeps_startRound:
  assumes "startRound roomId newDeck s = Some s'"
  shows "keeps k c s s'"
  using assms sidelined_mapPlayers [of c resetPlayer k, OF benched_reset]
  by (auto simp: startRound_def split_beta keeps_def Let_def
      split: Option.bind_splits option.splits if_splits dest!: updateGameState_frame)

lemma keeps_determineWinner:
  assumes "determineWinner roomId s = Some s'"
  shows "keeps k c s s'"
  using assms sidelined_mapPlayers [of c "settle d" k for d]
  by (auto simp: determineWinner_def split_beta keeps_def Let_def benched_settle
      split: Option.bind_splits option.splits if_splits dest!: updateGameState_frame)

lemma keeps_dealerTurnFn:
  assumes "dealerTurnFn roomId s = Some s'"
  shows "keeps k c s s'"
  using assms
  by (auto simp: dealerTurnFn_def split_beta keeps_def
      split: Option.bind_splits option.splits if_splits dest!: updateGameState_frame)

lemma sidelined_map_entry_other:
  "sid \<noteq> k \<Longrightarrow> sidelined k c (r\<lparr>players := AList.map_entry sid f (players r)\<rparr>) = sidelined k c r"
  by (simp add: sidelined_def AList.map_of_map_entry)

lemma sidelined_live:
  "sidelined k c r \<Longrightarrow> map_of (players r) k = Some p \<Longrightarrow> \<not> isEliminated p \<Longrightarrow> False"
  by (auto simp: sidelined_def benched_def)

lemma sidelined_playing:
  "sidelined k c r \<Longrightarrow> map_of (players r) k = Some p \<Longrightarrow> status p = StPlaying \<Longrightarrow> False"
  by (auto simp: sidelined_def benched_def)

lemma keeps_withBet:
  assumes "betGuard sid roomId amount s a player n"
  shows "keeps k c s (withBet sid n a s)"
proof (cases "sid = k")
  case True
  with assms have "\<not> sidelined k c (heap s a)"
    by (auto simp: betGuard_def dest: sidelined_live)
  then show ?thesis by (simp add: keeps_def withBet_def)
next
  case False
  then show ?thesis
    by (simp add: keeps_def withBet_def sidelined_map_entry_other)
qed

lemma keeps_placeBet:
  assumes "placeBet sid roomId amount s = Some s'"
  shows "keeps k c s s'"
proof (cases "\<exists>a player n. betGuard sid roomId amount s a player n")
  case False
  with assms placeBet_rejected [of sid roomId amount s] placeBet_inherited [of s roomId sid amount]
  show ?thesis by (cases "rooms s roomId = None \<and> inherited roomId") auto
next
  case True
  then obtain a player n where g: "betGuard sid roomId amount s a player n" by blast
  note w = keeps_withBet [OF g, of k c]
  show ?thesis
  proof (cases "allPlayersBetted (heap (withBet sid n a s) a)")
    case True
    with assms have "dealCards roomId
          (clearTimer (betCountdown (timers (heap s a))) (clearTimer (betTimeout (timers (heap s a)))
             (withBet sid n a s))) = Some s'"
      by (simp add: placeBet_unfold [OF g])
    from keeps_dealCards [OF this, of k c] w show ?thesis
      by (auto simp: keeps_def)
  next
    case False
    with assms have "updateGameState roomId (withBet sid n a s) = Some s'"
      by (simp add: placeBet_unfold [OF g])
    from keeps_updateGameState [OF this, of k c] w show ?thesis
      by (rule keeps_trans [rotated])
  qed
qed

lemma keeps_entry:
  assumes "map_of (players (heap s a)) sid = Some player" and "status player = StPlaying"
  shows "keeps k c s (modify a (\<lambda>r. r\<lparr>deck := d, players := AList.map_entry sid f (players r)\<rparr>) s)"
proof (cases "sid = k")
  case True
  with assms have "\<not> sidelined k c (heap s a)"
    by (auto dest: sidelined_playing)
  then show ?thesis by (simp add: keeps_def)
next
  case False
  have "sidelined k c (r\<lparr>deck := d, players := AList.map_entry sid f (players r)\<rparr>) = sidelined k c r" for r
    using False by (simp add: sidelined_def AList.map_of_map_entry)
  then show ?thesis by (simp add: keeps_def)
qed

lemma keeps_stand:
  assumes "stand sid roomId s = Some s'"
  shows "keeps k c s s'"
proof (cases "\<exists>a player. rooms s roomId = Some a \<and> map_of (players (heap s a)) sid = Some player
    \<and> gameState (heap s a) = ActionPhase \<and> status player = StPlaying")
  case False
  with assms show ?thesis
    by (auto simp: stand_def split: option.splits if_splits)
next
  case True
  then obtain a player where a: "rooms s roomId = Some a" "map_of (players (heap s a)) sid = Some player"
    "gameState (heap s a) = ActionPhase" "status player = StPlaying"
    by blast
  let ?s1 = "modify a (\<lambda>r. r\<lparr>players := AList.map_entry sid
                           (\<lambda>p. p\<lparr>status := StStand\<rparr>) (players r)\<rparr>) s"
  from assms a obtain s2 where u: "updateGameState roomId ?s1 = Some s2"
    and s': "s' = checkAndEndActionPhase roomId s2"
    by (auto simp: stand_def split: Option.bind_splits)
  have "(\<lambda>r. r\<lparr>players := AList.map_entry sid (\<lambda>p. p\<lparr>status := StStand\<rparr>) (players r)\<rparr>) (heap s a)
      = (\<lambda>r. r\<lparr>deck := deck (heap s a), players := AList.map_entry sid
                           (\<lambda>p. p\<lparr>status := StStand\<rparr>) (players r)\<rparr>) (heap s a)"
    by simp
  then have "?s1 = modify a (\<lambda>r. r\<lparr>deck := deck (heap s a), players := AList.map_entry sid
                           (\<lambda>p. p\<lparr>status := StStand\<rparr>) (players r)\<rparr>) s"
    unfolding modify_def by simp
  then have "keeps k c s ?s1"
    by (simp only: keeps_entry [OF a(2,4)])
  from this keeps_updateGameState [OF u] have "keeps k c s s2" by (rule keeps_trans)
  from this keeps_check show ?thesis unfolding s' by (rule keeps_trans)
qed

lemma keeps_hit:
  assumes "hit sid roomId s = Some s'"
  shows "keeps k c s s'"
proof (cases "\<exists>a player. rooms s roomId = Some a \<and> map_of (players (heap s a)) sid = Some player
    \<and> gameState (heap s a) = ActionPhase \<and> status player = StPlaying")
  case False
  with assms show ?thesis
    by (auto simp: hit_def split: option.splits if_splits)
next
  case True
  then obtain a player where a: "rooms s roomId = Some a" "map_of (players (heap s a)) sid = Some player"
    "gameState (heap s a) = ActionPhase" "status player = StPlaying"
    by blast
  from assms a obtain d f s2 where
    u: "updateGameState roomId (modify a (\<lambda>r. r\<lparr>deck := d, players := AList.map_entry sid f (players r)\<rparr>) s) = Some s2"
    and s': "s' = checkAndEndActionPhase roomId s2"
    by (auto simp: hit_def Let_def split: Option.bind_splits)
  from keeps_entry [OF a(2,4)] keeps_updateGameState [OF u] have "keeps k c s s2"
    by (rule keeps_trans)
  from this keeps_check show ?thesis unfolding s' by (rule keeps_trans)
qed

lemma keeps_joinRoom:
  assumes "joinRoom sid roomId playerName s = Some s'" and "sid \<noteq> k"
  shows "keeps k c s s'"
  using assms
  by (auto simp: joinRoom_def keeps_def sidelined_update
      split: option.splits if_splits dest!: updateGameState_frame)

lemma keeps_createRoom:
  assumes "createRoom sid roomId playerName s = Some s'"
  shows "keeps k c s s'"
  using assms
  by (auto simp: createRoom_def keeps_def Let_def
      split: option.splits if_splits dest!: updateGameState_frame)

lemma keeps_requestStartGame:
  assumes "requestStartGame sid socketRooms newDeck s = Some s'"
  shows "keeps k c s s'"
proof (cases "\<exists>roomId a. getRoomIdFromSocket sid socketRooms = Some roomId \<and> roomId \<noteq> []
    \<and> rooms s roomId = Some a \<and> gameState (heap s a) = Waiting \<and> length (players (heap s a)) \<ge> 1")
  case False
  with assms show ?thesis
    by (auto simp: requestStartGame_def split: option.splits if_splits)
next
  case True
  then obtain roomId a where a: "getRoomIdFromSocket sid socketRooms = Some roomId" "roomId \<noteq> []"
    "rooms s roomId = Some a" "gameState (heap s a) = Waiting" "length (players (heap s a)) \<ge> 1"
    by blast
  with assms have "startRound roomId newDeck (modify a (\<lambda>r. r\<lparr>round := 1\<rparr>) s) = Some s'"
    by (simp add: requestStartGame_def startGame_def)
  from keeps_startRound [OF this, of k c] show ?thesis
    by (rule keeps_trans [rotated]) (rule keeps_modify, simp)
qed

lemma fold_sendRanking_frame:
  "heap (fold (sendRanking rk) ms s) = heap s \<and> nextAddr (fold (sendRanking rk) ms s) = nextAddr s"
  by (induction ms arbitrary: s) (auto simp: sendRanking_def split: option.splits)

lemma keeps_run:
  assumes "run h cb ms newDeck members s = Some s'"
  shows "keeps k c s s'"
proof (cases cb)
  case (BetCountdownCb roomId n)
  with assms show ?thesis by (auto simp: keeps_def Let_def)
next
  case (BetTimeoutCb roomId a)
  let ?f = "\<lambda>p. if status p = StBetting then p\<lparr>bet := 0, status := StBetted\<rparr> else p"
  have b: "benched c p \<Longrightarrow> benched c (?f p)" for p
    by (simp add: benched_def)
  have m: "keeps k c s (modify a (mapPlayers ?f) (clearTimer (Some h) s))"
    using sidelined_mapPlayers [of c ?f k, OF b] by (simp add: keeps_def)
  from assms BetTimeoutCb have "s' = clearTimer (Some h) s
      \<or> dealCards roomId (modify a (mapPlayers ?f) (clearTimer (Some h) s)) = Some s'"
    by (auto simp: Let_def split: option.splits if_splits)
  then show ?thesis
    using keeps_dealCards [of roomId _ s' k c] m by (auto intro: keeps_trans)
next
  case (ActionTimerCb roomId a n)
  let ?f = "\<lambda>p. if status p = StPlaying then p\<lparr>status := StStand\<rparr> else p"
  have b: "benched c p \<Longrightarrow> benched c (?f p)" for p
    by (simp add: benched_def)
  from assms ActionTimerCb sidelined_mapPlayers [of c ?f k, OF b] show ?thesis
    by (auto simp: keeps_def Let_def
        split: Option.bind_splits option.splits if_splits dest!: updateGameState_frame)
next
  case (DealerWaitCb roomId)
  with assms have "dealerTurnFn roomId (clearTimer (Some h) s) = Some s'" by simp
  from keeps_dealerTurnFn [OF this, of k c] show ?thesis by (simp add: keeps_def)
next
  case (DealerTurnCb roomId a)
  show ?thesis
  proof (cases "score (dealer (heap s a)) < 17")
    case True
    with assms DealerTurnCb show ?thesis
      by (auto simp: keeps_def Let_def
          split: Option.bind_splits option.splits dest!: updateGameState_frame)
  next
    case False
    with assms DealerTurnCb
    have "determineWinner roomId (clearTimer (dealerTurn (timers (heap s a))) s) = Some s'"
      by (simp add: Let_def)
    from keeps_determineWinner [OF this, of k c] show ?thesis by (simp add: keeps_def)
  qed
next
  case (NextRoundCb roomId a n)
  show ?thesis
  proof (cases "n - 1 < 0")
    case False
    with assms NextRoundCb show ?thesis by (auto simp: keeps_def Let_def)
  next
    case True
    with assms NextRoundCb obtain s0 where
      s0: "startRound roomId newDeck s0 = Some s'"
        "heap s0 = (heap s)(a := (heap s a)\<lparr>round := round (heap s a) + 1\<rparr>)"
        "nextAddr s0 = nextAddr s"
      by (auto simp: Let_def)
    from s0(2,3) have "keeps k c s s0"
      by (simp add: keeps_def)
    from this keeps_startRound [OF s0(1)] show ?thesis
      by (rule keeps_trans)
  qed
next
  case (FinalRankingCb roomId)
  with assms show ?thesis
    by (auto simp: keeps_def Let_def fold_sendRanking_frame split: option.splits if_splits)
qed

lemma keeps_step:
  assumes "step e s = Some s'"
    and "\<And>roomId playerName. e \<noteq> JoinRoom k roomId playerName"
  shows "keeps k c s s'"
proof (cases e)
  case (CreateRoom sid roomId playerName)
  with assms(1) show ?thesis by (simp add: keeps_createRoom)
next
  case (JoinRoom sid roomId playerName)
  with assms(1,2) show ?thesis by (auto intro: keeps_joinRoom)
next
  case (RequestStartGame sid newDeck)
  with assms(1) show ?thesis by (simp add: keeps_requestStartGame)
next
  case (PlaceBet sid roomId amount)
  with assms(1) show ?thesis by (simp add: keeps_placeBet)
next
  case (Hit sid roomId)
  with assms(1) show ?thesis by (simp add: keeps_hit)
next
  case (Stand sid roomId)
  with assms(1) show ?thesis by (simp add: keeps_stand)
next
  case (Disconnect sid)
  with assms(1) show ?thesis by (auto simp: step_Disconnect keeps_def)
next
  case (Fire h newDeck members)
  with assms(1) show ?thesis
    by (auto simp: fire_def keeps_run split: option.splits)
qed

lemma keeps_steps:
  assumes "steps es s = Some s'" and "list_all (byOthers k) es"
  shows "keeps k c s s'"
  using assms
proof (induction es arbitrary: s)
  case Nil
  then show ?case by simp
next
  case (Cons e es)
  from Cons.prems(1) obtain s1 where s1: "step e s = Some s1" "steps es s1 = Some s'"
    by (auto split: option.splits)
  from Cons.prems(2) have "byOthers k e" "list_all (byOthers k) es" by simp_all
  from this(1) have "keeps k c s s1"
    by (intro keeps_step [OF s1(1)]) (auto simp: byOthers_def)
  moreover have "keeps k c s1 s'"
    by (rule Cons.IH [OF s1(2) \<open>list_all (byOthers k) es\<close>])
  ultimately show ?case by (rule keeps_trans)
qed

section \<open>Chips below zero\<close>

lemma soundAll_Nil [simp]: "soundAll []"
  by (simp add: soundAll_def)

lemma solvent_start: "solvent start"
  by (simp add: solvent_def start_def)

lemma solvent_same: "heap s' = heap s \<Longrightarrow> solvent s \<Longrightarrow> solvent s'"
  by (simp add: solvent_def)

lemma sound_map:
  assumes "\<And>p. sound p \<Longrightarrow> sound (f p)" and "soundAll ps"
  shows "soundAll (map (\<lambda>(pid, p). (pid, f p)) ps)"
  using assms by (auto simp: soundAll_def list_all_iff)

lemma sound_map_entry:
  assumes "\<And>p. sound p \<Longrightarrow> sound (f p)" and "soundAll ps"
  shows "soundAll (AList.map_entry k f ps)"
  using assms unfolding soundAll_def by (induction ps) auto

lemma sound_update:
  assumes "sound v" and "soundAll ps"
  shows "soundAll (AList.update k v ps)"
  using assms unfolding soundAll_def by (induction ps) auto

lemma sound_delete:
  assumes "soundAll ps"
  shows "soundAll (AList.delete k ps)"
  using assms unfolding soundAll_def by (induction ps) auto

lemma sound_dealt:
  assumes "list_all2 (\<lambda>x y. fst y = fst x \<and> dealtTo (snd x) (snd y)) ps ps'"
    and "soundAll ps"
  shows "soundAll ps'"
  using assms unfolding soundAll_def
proof (induction rule: list_all2_induct)
  case Nil
  then show ?case by simp
next
  case (Cons x xs y ys)
  have "sound (snd y)"
  proof (cases "bet (snd x) > 0 \<and> \<not> isEliminated (snd x)")
    case True
    with Cons.hyps(1) dealtTo_live [of "snd x" "snd y"] Cons.prems show ?thesis
      by (auto simp: sound_def)
  next
    case False
    with Cons.hyps(1) dealtTo_idle [of "snd x" "snd y"] Cons.prems show ?thesis
      by (auto simp: sound_def)
  qed
  with Cons show ?case by (auto simp: case_prod_beta)
qed

lemma sound_settle: "sound p \<Longrightarrow> sound (settle d p)"
  by (auto simp: sound_def settle_def loses_def Let_def)

lemma sound_reset: "sound p \<Longrightarrow> sound (resetPlayer p)"
  by (simp add: sound_def resetPlayer_def)

lemma sound_createPlayer: "sound (createPlayer n)"
  by (simp add: sound_def createPlayer_def)

lemma solvent_updateGameState:
  "updateGameState roomId s = Some s' \<Longrightarrow> solvent s \<Longrightarrow> solvent s'"
  by (auto simp: solvent_def dest!: updateGameState_frame)

lemma solvent_check: "solvent s \<Longrightarrow> solvent (checkAndEndActionPhase roomId s)"
  by (auto simp: checkAndEndActionPhase_def solvent_def split: option.splits)

lemma solvent_startActionPhase:
  "startActionPhase roomId s = Some s' \<Longrightarrow> solvent s \<Longrightarrow> solvent s'"
  by (auto simp: startActionPhase_def split_beta solvent_def
      split: Option.bind_splits option.splits if_splits dest!: updateGameState_frame)

lemma solvent_dealCards:
  assumes "dealCards roomId s = Some s'" and "solvent s"
  shows "solvent s'"
proof (cases "\<exists>a. rooms s roomId = Some a \<and> gameState (heap s a) = Betting")
  case False
  with assms show ?thesis
    by (auto simp: dealCards_def split: option.splits if_splits)
next
  case True
  then obtain a where a: "rooms s roomId = Some a" "gameState (heap s a) = Betting"
    by blast
  with assms obtain ps d1 h2 d3 where
    dp: "dealPlayers (players (heap s a)) (deck (heap s a)) = Some (ps, d1)"
    and st: "startActionPhase roomId (modify a (\<lambda>r. r\<lparr>players := ps, deck := d3,
                          dealer := (dealer r)\<lparr>hand := h2, score := calculateScore h2\<rparr>\<rparr>)
                (clearAllTimers roomId s)) = Some s'"
    by (auto simp: dealCards_def Let_def split: Option.bind_splits)
  have "solvent (modify a (\<lambda>r. r\<lparr>players := ps, deck := d3,
                          dealer := (dealer r)\<lparr>hand := h2, score := calculateScore h2\<rparr>\<rparr>)
                (clearAllTimers roomId s))"
    using sound_dealt [OF dealPlayers_rel [OF dp]] assms(2)
    by (auto simp: solvent_def)
  with st show ?thesis by (rule solvent_startActionPhase)
qed

lemma solvent_startRound:
  "startRound roomId newDeck s = Some s' \<Longrightarrow> solvent s \<Longrightarrow> solvent s'"
  by (auto simp: startRound_def split_beta solvent_def Let_def mapPlayers_def
      split: Option.bind_splits option.splits if_splits dest!: updateGameState_frame
      intro!: sound_map sound_reset)

lemma solvent_determineWinner:
  "determineWinner roomId s = Some s' \<Longrightarrow> solvent s \<Longrightarrow> solvent s'"
  by (auto simp: determineWinner_def split_beta solvent_def Let_def mapPlayers_def
      split: Option.bind_splits option.splits if_splits dest!: updateGameState_frame
      intro!: sound_map sound_settle)

lemma solvent_dealerTurnFn:
  "dealerTurnFn roomId s = Some s' \<Longrightarrow> solvent s \<Longrightarrow> solvent s'"
  by (auto simp: dealerTurnFn_def split_beta solvent_def
      split: Option.bind_splits option.splits if_splits dest!: updateGameState_frame)

lemma solvent_placeBet:
  assumes "placeBet sid roomId amount s = Some s'" and "solvent s"
  shows "solvent s'"
proof (cases "\<exists>a player n. betGuard sid roomId amount s a player n")
  case False
  with assms placeBet_rejected [of sid roomId amount s] placeBet_inherited [of s roomId sid amount]
  show ?thesis by (cases "rooms s roomId = None \<and> inherited roomId") auto
next
  case True
  then obtain a player n where g: "betGuard sid roomId amount s a player n" by blast
  have b: "sound p \<Longrightarrow> sound (p\<lparr>bet := n, status := StBetted\<rparr>)" for p
    by (simp add: sound_def)
  have w: "solvent (withBet sid n a s)"
    unfolding withBet_def using assms(2)
    by (auto simp: solvent_def intro!: sound_map_entry b)
  show ?thesis
  proof (cases "allPlayersBetted (heap (withBet sid n a s) a)")
    case True
    with assms have "dealCards roomId
          (clearTimer (betCountdown (timers (heap s a))) (clearTimer (betTimeout (timers (heap s a)))
             (withBet sid n a s))) = Some s'"
      by (simp add: placeBet_unfold [OF g])
    moreover from w have "solvent (clearTimer (betCountdown (timers (heap s a)))
        (clearTimer (betTimeout (timers (heap s a))) (withBet sid n a s)))"
      by (simp add: solvent_def)
    ultimately show ?thesis by (rule solvent_dealCards)
  next
    case False
    with assms have "updateGameState roomId (withBet sid n a s) = Some s'"
      by (simp add: placeBet_unfold [OF g])
    from this w show ?thesis by (rule solvent_updateGameState)
  qed
qed

lemma solvent_stand:
  "stand sid roomId s = Some s' \<Longrightarrow> solvent s \<Longrightarrow> solvent s'"
  by (auto simp: stand_def solvent_def checkAndEndActionPhase_def
      split: Option.bind_splits option.splits if_splits dest!: updateGameState_frame
      intro!: sound_map_entry) (simp_all add: sound_def)

lemma solvent_hit:
  "hit sid roomId s = Some s' \<Longrightarrow> solvent s \<Longrightarrow> solvent s'"
  by (auto simp: hit_def solvent_def checkAndEndActionPhase_def Let_def
      split: Option.bind_splits option.splits if_splits dest!: updateGameState_frame
      intro!: sound_map_entry) (simp_all add: sound_def)

lemma solvent_joinRoom:
  "joinRoom sid roomId playerName s = Some s' \<Longrightarrow> solvent s \<Longrightarrow> solvent s'"
  by (auto simp: joinRoom_def solvent_def
      split: option.splits if_splits dest!: updateGameState_frame
      intro!: sound_update sound_createPlayer)

lemma solvent_createRoom:
  "createRoom sid roomId playerName s = Some s' \<Longrightarrow> solvent s \<Longrightarrow> solvent s'"
  using sound_createPlayer
  by (auto simp: createRoom_def solvent_def Let_def soundAll_def
      split: option.splits if_splits dest!: updateGameState_frame)

lemma solvent_requestStartGame:
  assumes "requestStartGame sid socketRooms newDeck s = Some s'" and "solvent s"
  shows "solvent s'"
proof (cases "\<exists>roomId a. getRoomIdFromSocket sid socketRooms = Some roomId \<and> roomId \<noteq> []
    \<and> rooms s roomId = Some a \<and> gameState (heap s a) = Waiting \<and> length (players (heap s a)) \<ge> 1")
  case False
  with assms show ?thesis
    by (auto simp: requestStartGame_def split: option.splits if_splits)
next
  case True
  then obtain roomId a where a: "getRoomIdFromSocket sid socketRooms = Some roomId" "roomId \<noteq> []"
    "rooms s roomId = Some a" "gameState (heap s a) = Waiting" "length (players (heap s a)) \<ge> 1"
    by blast
  with assms have "startRound roomId newDeck (modify a (\<lambda>r. r\<lparr>round := 1\<rparr>) s) = Some s'"
    by (simp add: requestStartGame_def startGame_def)
  moreover have "solvent (modify a (\<lambda>r. r\<lparr>round := 1\<rparr>) s)"
    using assms(2) by (simp add: solvent_def)
  ultimately show ?thesis by (rule solvent_startRound)
qed

lemma solvent_run:
  assumes "run h cb ms newDeck members s = Some s'" and "solvent s"
  shows "solvent s'"
proof (cases cb)
  case (BetCountdownCb roomId n)
  with assms show ?thesis by (auto simp: solvent_def Let_def)
next
  case (BetTimeoutCb roomId a)
  let ?f = "\<lambda>p. if status p = StBetting then p\<lparr>bet := 0, status := StBetted\<rparr> else p"
  have b: "sound p \<Longrightarrow> sound (?f p)" for p
    by (simp add: sound_def)
  have m: "solvent (modify a (mapPlayers ?f) (clearTimer (Some h) s))"
    using assms(2) by (auto simp: solvent_def mapPlayers_def intro!: sound_map b)
  from assms BetTimeoutCb have "s' = clearTimer (Some h) s
      \<or> dealCards roomId (modify a (mapPlayers ?f) (clearTimer (Some h) s)) = Some s'"
    by (auto simp: Let_def split: option.splits if_splits)
  then show ?thesis
    using solvent_dealCards [of roomId _ s'] m assms(2) by (auto simp: solvent_def)
next
  case (ActionTimerCb roomId a n)
  let ?f = "\<lambda>p. if status p = StPlaying then p\<lparr>status := StStand\<rparr> else p"
  have b: "sound p \<Longrightarrow> sound (?f p)" for p
    by (simp add: sound_def)
  from assms ActionTimerCb show ?thesis
    by (auto simp: solvent_def Let_def mapPlayers_def
        split: Option.bind_splits option.splits if_splits dest!: updateGameState_frame
        intro!: sound_map b)
next
  case (DealerWaitCb roomId)
  with assms have "dealerTurnFn roomId (clearTimer (Some h) s) = Some s'" by simp
  moreover from assms(2) have "solvent (clearTimer (Some h) s)" by (simp add: solvent_def)
  ultimately show ?thesis by (rule solvent_dealerTurnFn)
next
  case (DealerTurnCb roomId a)
  show ?thesis
  proof (cases "score (dealer (heap s a)) < 17")
    case True
    with assms DealerTurnCb show ?thesis
      by (auto simp: solvent_def Let_def
          split: Option.bind_splits option.splits dest!: updateGameState_frame)
  next
    case False
    with assms DealerTurnCb
    have "determineWinner roomId (clearTimer (dealerTurn (timers (heap s a))) s) = Some s'"
      by (simp add: Let_def)
    moreover from assms(2) have "solvent (clearTimer (dealerTurn (timers (heap s a))) s)"
      by (simp add: solvent_def)
    ultimately show ?thesis by (rule solvent_determineWinner)
  qed
next
  case (NextRoundCb roomId a n)
  show ?thesis
  proof (cases "n - 1 < 0")
    case False
    with assms NextRoundCb show ?thesis by (auto simp: solvent_def Let_def)
  next
    case True
    with assms NextRoundCb obtain s0 where
      s0: "startRound roomId newDeck s0 = Some s'"
        "heap s0 = (heap s)(a := (heap s a)\<lparr>round := round (heap s a) + 1\<rparr>)"
      by (auto simp: Let_def)
    from s0(2) assms(2) have "solvent s0"
      by (simp add: solvent_def)
    with s0(1) show ?thesis
      by (rule solvent_startRound)
  qed
next
  case (FinalRankingCb roomId)
  with assms show ?thesis
    by (auto simp: solvent_def Let_def fold_sendRanking_frame split: option.splits if_splits)
qed

lemma solvent_step:
  assumes "step e s = Some s'" and "solvent s"
  shows "solvent s'"
proof (cases e)
  case (CreateRoom sid roomId playerName)
  with assms show ?thesis by (auto intro: solvent_createRoom)
next
  case (JoinRoom sid roomId playerName)
  with assms show ?thesis by (auto intro: solvent_joinRoom)
next
  case (RequestStartGame sid newDeck)
  with assms show ?thesis by (auto intro: solvent_requestStartGame)
next
  case (PlaceBet sid roomId amount)
  with assms show ?thesis by (auto intro: solvent_placeBet)
next
  case (Hit sid roomId)
  with assms show ?thesis by (auto intro: solvent_hit)
next
  case (Stand sid roomId)
  with assms show ?thesis by (auto intro: solvent_stand)
next
  case (Disconnect sid)
  with assms show ?thesis by (auto simp: step_Disconnect solvent_def)
next
  case (Fire h newDeck members)
  with assms show ?thesis
    by (auto simp: fire_def split: option.splits intro: solvent_run)
qed

lemma solvent_steps:
  "steps es s = Some s' \<Longrightarrow> solvent s \<Longrightarrow> solvent s'"
proof (induction es arbitrary: s)
  case Nil
  then show ?case by simp
next
  case (Cons e es)
  from Cons.prems(1) obtain s1 where s1: "step e s = Some s1" "steps es s1 = Some s'"
    by (auto split: option.splits)
  from solvent_step [OF s1(1) Cons.prems(2)] have "solvent s1" .
  with s1(2) show ?case by (rule Cons.IH)
qed

lemma settle_marks:
  "sound p \<Longrightarrow> chips (settle d p) < 0 \<Longrightarrow> isEliminated (settle d p)"
  by (auto simp: sound_def settle_def loses_def Let_def split: if_splits)

lemma settle_stays_out: "isEliminated p \<Longrightarrow> isEliminated (settle d p)"
  by (simp add: settle_def loses_def Let_def)

lemma solvent_player:
  assumes "solvent s" and "map_of (players (heap s a)) k = Some p"
  shows "sound p"
proof -
  from assms(2) have "(k, p) \<in> set (players (heap s a))" by (rule map_of_SomeD)
  with assms(1) show ?thesis
    by (auto simp: solvent_def soundAll_def list_all_iff)
qed

lemma eliminated_bet_rejected:
  assumes "rooms t roomId = Some a" and "map_of (players (heap t a)) k = Some q" and "isEliminated q"
  shows "placeBet k roomId amount t = Some t"
  using assms by (simp add: placeBet_def)

lemma eliminated_not_dealt:
  assumes "rooms t roomId = Some a" and "map_of (players (heap t a)) k = Some q" and "isEliminated q"
    and "gameState (heap t a) = Betting" and "dealCards roomId t = Some t'"
  shows "map_of (players (heap t' a)) k = Some q"
proof -
  from dealCards_players [OF assms(5,1,4)]
  have "list_all2 (\<lambda>x y. fst y = fst x \<and> dealtTo (snd x) (snd y))
           (players (heap t a)) (players (heap t' a))"
    by simp
  from rel_map_of [OF this assms(2)] obtain p' where
    p': "map_of (players (heap t' a)) k = Some p'" "dealtTo q p'"
    by blast
  from dealtTo_idle [OF p'(2)] assms(3) have "p' = q" by simp
  with p'(1) show ?thesis by simp
qed

lemma startRound_benches:
  assumes "rooms t roomId = Some a" and "map_of (players (heap t a)) k = Some q" and "isEliminated q"
    and "startRound roomId newDeck t = Some t'"
  shows "sidelined k (chips q) (heap t' a)"
proof -
  from assms(1,4) have "players (heap t' a) = map (\<lambda>(pid, p). (pid, resetPlayer p)) (players (heap t a))"
    by (auto simp: startRound_def split_beta Let_def mapPlayers_def
        split: Option.bind_splits dest!: updateGameState_frame)
  with assms(2,3) show ?thesis
    by (simp add: sidelined_def map_of_mapped benched_def resetPlayer_def)
qed

lemma player_ranked:
  assumes "map_of (players r) k = Some p" and "length (players r) \<le> 5"
  shows "\<exists>e\<in>set (take 5 (fullRanking r)). rId e = k \<and> rChips e = chips p"
proof -
  from assms(1) have "(k, p) \<in> set (players r)" by (rule map_of_SomeD)
  then have "\<lparr>rId = k, rName = name p, rChips = chips p\<rparr> \<in> set (fullRanking r)"
    by (force simp: fullRanking_def)
  moreover have "take 5 (fullRanking r) = fullRanking r"
    using assms(2) by (simp add: fullRanking_def)
  ultimately show ?thesis by force
qed


text \<open>
  Everywhere but in \<open>joinRoom\<close> the elimination is honoured. In every state reachable from the
  start, a player whose chips are below zero after the chip update of \<open>determineWinner\<close> is
  eliminated, and \<open>determineWinner\<close> never clears the flag. An eliminated player's bet is
  rejected, \<open>dealCards\<close> leaves the record as it is (no cards), and the next \<open>startRound\<close>
  keeps the chips and the flag and sets the bet to 0 and the status to the label of the
  eliminated. From then on the record (flag, chips, no bet, no cards) survives every
  sequence of events in which that socket does not send \<open>joinRoom\<close> again. Every player of
  the room, eliminated or not, is in the final ranking with the chips of its record.
\<close>

lemma elimination_honoured:
  "(steps es start = Some s \<and> rooms s roomId = Some a \<and> map_of (players (heap s a)) k = Some p \<longrightarrow>
      (\<exists>s' p'. determineWinner roomId s = Some s' \<and> map_of (players (heap s' a)) k = Some p'
          \<and> (chips p' < 0 \<longrightarrow> isEliminated p') \<and> (isEliminated p \<longrightarrow> isEliminated p')))
   \<and> (rooms t roomId = Some a \<and> map_of (players (heap t a)) k = Some q \<and> isEliminated q \<longrightarrow>
        placeBet k roomId amount t = Some t
      \<and> (\<forall>t'. gameState (heap t a) = Betting \<and> dealCards roomId t = Some t' \<longrightarrow>
             map_of (players (heap t' a)) k = Some q)
      \<and> (\<forall>t'. startRound roomId newDeck t = Some t' \<longrightarrow> sidelined k (chips q) (heap t' a)))
   \<and> (a < nextAddr u \<and> sidelined k c (heap u a) \<and> list_all (byOthers k) evs
        \<and> steps evs u = Some u' \<longrightarrow> sidelined k c (heap u' a))
   \<and> (map_of (players r) k = Some w \<and> length (players r) \<le> 5 \<longrightarrow>
        (\<exists>e\<in>set (take 5 (fullRanking r)). rId e = k \<and> rChips e = chips w))"
proof -
  have 1: "\<exists>s' p'. determineWinner roomId s = Some s' \<and> map_of (players (heap s' a)) k = Some p'
          \<and> (chips p' < 0 \<longrightarrow> isEliminated p') \<and> (isEliminated p \<longrightarrow> isEliminated p')"
    if "steps es start = Some s" "rooms s roomId = Some a" "map_of (players (heap s a)) k = Some p"
  proof -
    from solvent_steps [OF that(1) solvent_start] that(3) have "sound p"
      by (rule solvent_player)
    from determineWinner_players [OF that(2)] obtain s' where
      s': "determineWinner roomId s = Some s'"
        "players (heap s' a) =
           map (\<lambda>(pid, p). (pid, settle (score (dealer (heap s a))) p)) (players (heap s a))"
      by blast
    have "map_of (players (heap s' a)) k = Some (settle (score (dealer (heap s a))) p)"
      by (simp add: s'(2) map_of_mapped that(3))
    with s'(1) settle_marks [OF \<open>sound p\<close>] settle_stays_out show ?thesis
      by blast
  qed
  have 2: "placeBet k roomId amount t = Some t
      \<and> (\<forall>t'. gameState (heap t a) = Betting \<and> dealCards roomId t = Some t' \<longrightarrow>
             map_of (players (heap t' a)) k = Some q)
      \<and> (\<forall>t'. startRound roomId newDeck t = Some t' \<longrightarrow> sidelined k (chips q) (heap t' a))"
    if "rooms t roomId = Some a" "map_of (players (heap t a)) k = Some q" "isEliminated q"
    using eliminated_bet_rejected [OF that] eliminated_not_dealt [OF that]
      startRound_benches [OF that]
    by blast
  have 3: "sidelined k c (heap u' a)"
    if "a < nextAddr u" "sidelined k c (heap u a)" "list_all (byOthers k) evs" "steps evs u = Some u'"
    using keeps_steps [OF that(4,3), of c] that(1,2) by (simp add: keeps_def)
  from 1 2 3 player_ranked [of r k w] show ?thesis by blast
qed


section \<open>The dealer's score\<close>

lemma calculateScore_Nil [simp]: "calculateScore [] = 0"
  by (simp add: calculateScore_def demote.simps)

lemma scored_start: "scored start"
  by (simp add: scored_def scoredRoom_def start_def)

lemma scored_same: "heap s' = heap s \<Longrightarrow> scored s \<Longrightarrow> scored s'"
  by (simp add: scored_def)

lemma scoredRoom_same:
  "dealer r' = dealer r \<Longrightarrow> gameState r' = gameState r \<Longrightarrow> scoredRoom r \<Longrightarrow> scoredRoom r'"
  by (simp add: scoredRoom_def)

lemma scoredRoom_leaves:
  "dealer r' = dealer r \<Longrightarrow> gameState r' \<noteq> ActionPhase \<Longrightarrow> scoredRoom r \<Longrightarrow> scoredRoom r'"
  by (simp add: scoredRoom_def)

lemma scored_modify:
  assumes "scored s" and "scoredRoom (heap s a) \<Longrightarrow> scoredRoom (f (heap s a))"
  shows "scored (modify a f s)"
  using assms by (simp add: scored_def)

lemma scored_updateGameState:
  "updateGameState roomId s = Some s' \<Longrightarrow> scored s \<Longrightarrow> scored s'"
  by (auto simp: scored_def dest!: updateGameState_frame)

lemma scored_check: "scored s \<Longrightarrow> scored (checkAndEndActionPhase roomId s)"
  by (auto simp: checkAndEndActionPhase_def scored_def split: option.splits)

lemma updateGameState_shows:
  assumes "updateGameState roomId s = Some s'" and "rooms s roomId = Some a"
    and "gameState (heap s a) = ActionPhase"
  shows "hand (dealer (heap s a)) \<noteq> []"
  using assms by (auto simp: updateGameState_def project_def split: option.splits list.splits)

lemma scored_startActionPhase:
  assumes "startActionPhase roomId s = Some s'"
    and "\<forall>a. score (dealer (heap s a)) = calculateScore (hand (dealer (heap s a)))
           \<and> (rooms s roomId \<noteq> Some a \<longrightarrow> scoredRoom (heap s a))"
  shows "scored s'"
proof (cases "rooms s roomId")
  case None
  with assms show ?thesis
    by (auto simp: startActionPhase_def scored_def split: if_splits)
next
  case (Some a)
  let ?s0 = "modify a (\<lambda>r. r\<lparr>gameState := ActionPhase\<rparr>) s"
  from assms(1) Some obtain s1 where u: "updateGameState roomId ?s0 = Some s1"
    and s': "heap s' = (heap s1)(a := (heap s1 a)\<lparr>timers := (timers (heap s1 a))\<lparr>actionTimer := Some (nextHandle s1)\<rparr>\<rparr>)"
    by (auto simp: startActionPhase_def split_beta split: Option.bind_splits)
  have "rooms ?s0 roomId = Some a" "gameState (heap ?s0 a) = ActionPhase"
    using Some by simp_all
  from updateGameState_shows [OF u this] have ne: "hand (dealer (heap s a)) \<noteq> []"
    by simp
  from updateGameState_frame [OF u] have h1: "heap s1 = heap ?s0" by simp
  show ?thesis
    unfolding scored_def
  proof
    fix b
    show "scoredRoom (heap s' b)"
      using assms(2) ne Some by (cases "b = a") (auto simp: s' h1 scoredRoom_def)
  qed
qed

lemma scored_dealCards:
  assumes "dealCards roomId s = Some s'" and "scored s"
  shows "scored s'"
proof (cases "\<exists>a. rooms s roomId = Some a \<and> gameState (heap s a) = Betting")
  case False
  with assms show ?thesis
    by (auto simp: dealCards_def split: option.splits if_splits)
next
  case True
  then obtain a where a: "rooms s roomId = Some a" "gameState (heap s a) = Betting"
    by blast
  with assms obtain ps d3 h2 where
    st: "startActionPhase roomId (modify a (\<lambda>r. r\<lparr>players := ps, deck := d3,
                          dealer := (dealer r)\<lparr>hand := h2, score := calculateScore h2\<rparr>\<rparr>)
                (clearAllTimers roomId s)) = Some s'"
    by (auto simp: dealCards_def Let_def split: Option.bind_splits)
  show ?thesis
    using assms(2) a(1)
    by (intro scored_startActionPhase [OF st]) (auto simp: scored_def scoredRoom_def)
qed

lemma scored_startRound:
  "startRound roomId newDeck s = Some s' \<Longrightarrow> scored s \<Longrightarrow> scored s'"
  by (auto simp: startRound_def split_beta scored_def scoredRoom_def Let_def mapPlayers_def
      split: Option.bind_splits option.splits if_splits dest!: updateGameState_frame)

lemma scored_determineWinner:
  "determineWinner roomId s = Some s' \<Longrightarrow> scored s \<Longrightarrow> scored s'"
  by (auto simp: determineWinner_def split_beta scored_def scoredRoom_def Let_def mapPlayers_def
      split: Option.bind_splits option.splits if_splits dest!: updateGameState_frame)

lemma scored_dealerTurnFn:
  "dealerTurnFn roomId s = Some s' \<Longrightarrow> scored s \<Longrightarrow> scored s'"
  by (auto simp: dealerTurnFn_def split_beta scored_def scoredRoom_def
      split: Option.bind_splits option.splits if_splits dest!: updateGameState_frame)

lemma scored_placeBet:
  assumes "placeBet sid roomId amount s = Some s'" and "scored s"
  shows "scored s'"
proof (cases "\<exists>a player n. betGuard sid roomId amount s a player n")
  case False
  with assms placeBet_rejected [of sid roomId amount s] placeBet_inherited [of s roomId sid amount]
  show ?thesis by (cases "rooms s roomId = None \<and> inherited roomId") auto
next
  case True
  then obtain a player n where g: "betGuard sid roomId amount s a player n" by blast
  have w: "scored (withBet sid n a s)"
    unfolding withBet_def using assms(2)
    by (auto simp: scored_def scoredRoom_def)
  show ?thesis
  proof (cases "allPlayersBetted (heap (withBet sid n a s) a)")
    case True
    with assms have "dealCards roomId
          (clearTimer (betCountdown (timers (heap s a))) (clearTimer (betTimeout (timers (heap s a)))
             (withBet sid n a s))) = Some s'"
      by (simp add: placeBet_unfold [OF g])
    moreover from w have "scored (clearTimer (betCountdown (timers (heap s a)))
        (clearTimer (betTimeout (timers (heap s a))) (withBet sid n a s)))"
      by (simp add: scored_def)
    ultimately show ?thesis by (rule scored_dealCards)
  next
    case False
    with assms have "updateGameState roomId (withBet sid n a s) = Some s'"
      by (simp add: placeBet_unfold [OF g])
    from this w show ?thesis by (rule scored_updateGameState)
  qed
qed

lemma scored_stand:
  "stand sid roomId s = Some s' \<Longrightarrow> scored s \<Longrightarrow> scored s'"
  by (auto simp: stand_def scored_def scoredRoom_def checkAndEndActionPhase_def
      split: Option.bind_splits option.splits if_splits dest!: updateGameState_frame)

lemma scored_hit:
  "hit sid roomId s = Some s' \<Longrightarrow> scored s \<Longrightarrow> scored s'"
  by (auto simp: hit_def scored_def scoredRoom_def checkAndEndActionPhase_def Let_def
      split: Option.bind_splits option.splits if_splits dest!: updateGameState_frame)

lemma scored_joinRoom:
  "joinRoom sid roomId playerName s = Some s' \<Longrightarrow> scored s \<Longrightarrow> scored s'"
  by (auto simp: joinRoom_def scored_def scoredRoom_def
      split: option.splits if_splits dest!: updateGameState_frame)

lemma scored_createRoom:
  "createRoom sid roomId playerName s = Some s' \<Longrightarrow> scored s \<Longrightarrow> scored s'"
  by (auto simp: createRoom_def scored_def scoredRoom_def Let_def
      split: option.splits if_splits dest!: updateGameState_frame)

lemma scored_requestStartGame:
  assumes "requestStartGame sid socketRooms newDeck s = Some s'" and "scored s"
  shows "scored s'"
proof (cases "\<exists>roomId a. getRoomIdFromSocket sid socketRooms = Some roomId \<and> roomId \<noteq> []
    \<and> rooms s roomId = Some a \<and> gameState (heap s a) = Waiting \<and> length (players (heap s a)) \<ge> 1")
  case False
  with assms show ?thesis
    by (auto simp: requestStartGame_def split: option.splits if_splits)
next
  case True
  then obtain roomId a where a: "getRoomIdFromSocket sid socketRooms = Some roomId" "roomId \<noteq> []"
    "rooms s roomId = Some a" "gameState (heap s a) = Waiting" "length (players (heap s a)) \<ge> 1"
    by blast
  with assms have "startRound roomId newDeck (modify a (\<lambda>r. r\<lparr>round := 1\<rparr>) s) = Some s'"
    by (simp add: requestStartGame_def startGame_def)
  moreover have "scored (modify a (\<lambda>r. r\<lparr>round := 1\<rparr>) s)"
    using assms(2) by (simp add: scored_def scoredRoom_def)
  ultimately show ?thesis by (rule scored_startRound)
qed

lemma scored_run:
  assumes "run h cb ms newDeck members s = Some s'" and "scored s"
  shows "scored s'"
proof (cases cb)
  case (BetCountdownCb roomId n)
  with assms show ?thesis by (auto simp: scored_def Let_def)
next
  case (BetTimeoutCb roomId a)
  let ?f = "\<lambda>p. if status p = StBetting then p\<lparr>bet := 0, status := StBetted\<rparr> else p"
  have m: "scored (modify a (mapPlayers ?f) (clearTimer (Some h) s))"
    using assms(2) by (auto simp: scored_def scoredRoom_def mapPlayers_def)
  from assms BetTimeoutCb have "s' = clearTimer (Some h) s
      \<or> dealCards roomId (modify a (mapPlayers ?f) (clearTimer (Some h) s)) = Some s'"
    by (auto simp: Let_def split: option.splits if_splits)
  then show ?thesis
    using scored_dealCards [of roomId _ s'] m assms(2) by (auto simp: scored_def)
next
  case (ActionTimerCb roomId a n)
  with assms show ?thesis
    by (auto simp: scored_def scoredRoom_def Let_def mapPlayers_def
        split: Option.bind_splits option.splits if_splits dest!: updateGameState_frame)
next
  case (DealerWaitCb roomId)
  with assms have "dealerTurnFn roomId (clearTimer (Some h) s) = Some s'" by simp
  moreover from assms(2) have "scored (clearTimer (Some h) s)" by (simp add: scored_def)
  ultimately show ?thesis by (rule scored_dealerTurnFn)
next
  case (DealerTurnCb roomId a)
  show ?thesis
  proof (cases "score (dealer (heap s a)) < 17")
    case True
    with assms DealerTurnCb show ?thesis
      by (auto simp: scored_def scoredRoom_def Let_def
          split: Option.bind_splits option.splits if_splits dest!: updateGameState_frame draw_SomeD)
  next
    case False
    with assms DealerTurnCb
    have "determineWinner roomId (clearTimer (dealerTurn (timers (heap s a))) s) = Some s'"
      by (simp add: Let_def)
    moreover from assms(2) have "scored (clearTimer (dealerTurn (timers (heap s a))) s)"
      by (simp add: scored_def)
    ultimately show ?thesis by (rule scored_determineWinner)
  qed
next
  case (NextRoundCb roomId a n)
  show ?thesis
  proof (cases "n - 1 < 0")
    case False
    with assms NextRoundCb show ?thesis by (auto simp: scored_def Let_def)
  next
    case True
    with assms NextRoundCb obtain s0 where
      s0: "startRound roomId newDeck s0 = Some s'"
        "heap s0 = (heap s)(a := (heap s a)\<lparr>round := round (heap s a) + 1\<rparr>)"
      by (auto simp: Let_def)
    from s0(2) assms(2) have "scored s0"
      by (simp add: scored_def scoredRoom_def)
    with s0(1) show ?thesis
      by (rule scored_startRound)
  qed
next
  case (FinalRankingCb roomId)
  with assms show ?thesis
    by (auto simp: scored_def Let_def fold_sendRanking_frame split: option.splits if_splits)
qed

lemma scored_step:
  assumes "step e s = Some s'" and "scored s"
  shows "scored s'"
proof (cases e)
  case (CreateRoom sid roomId playerName)
  with assms show ?thesis by (auto intro: scored_createRoom)
next
  case (JoinRoom sid roomId playerName)
  with assms show ?thesis by (auto intro: scored_joinRoom)
next
  case (RequestStartGame sid newDeck)
  with assms show ?thesis by (auto intro: scored_requestStartGame)
next
  case (PlaceBet sid roomId amount)
  with assms show ?thesis by (auto intro: scored_placeBet)
next
  case (Hit sid roomId)
  with assms show ?thesis by (auto intro: scored_hit)
next
  case (Stand sid roomId)
  with assms show ?thesis by (auto intro: scored_stand)
next
  case (Disconnect sid)
  with assms show ?thesis by (auto simp: step_Disconnect scored_def)
next
  case (Fire h newDeck members)
  with assms show ?thesis
    by (auto simp: fire_def split: option.splits intro: scored_run)
qed

lemma scored_steps:
  "steps es s = Some s' \<Longrightarrow> scored s \<Longrightarrow> scored s'"
proof (induction es arbitrary: s)
  case Nil
  then show ?case by simp
next
  case (Cons e es)
  from Cons.prems(1) obtain s1 where s1: "step e s = Some s1" "steps es s1 = Some s'"
    by (auto split: option.splits)
  from scored_step [OF s1(1) Cons.prems(2)] have "scored s1" .
  with s1(2) show ?case by (rule Cons.IH)
qed


section \<open>Every armed timer is a timer of the phase its room is in\<close>





lemma fits_Dealer:
  "fits cb h a r \<Longrightarrow> gameState r = Dealer \<Longrightarrow> dealerTurn (timers r) = Some h"
  by (cases cb) auto

lemma fits_Result:
  "fits cb h a r \<Longrightarrow> gameState r = Result \<Longrightarrow>
   countdownTimer (timers r) = Some h \<or> cb = FinalRankingCb (owner cb)"
  by (cases cb) auto

lemma fits_not_forBets: "fits cb h a r \<Longrightarrow> gameState r \<noteq> Betting \<Longrightarrow> \<not> forBets cb"
  by (cases cb) (auto simp: forBets_def)














































lemma settle_status [simp]: "status (settle d p) = status p"
  by (simp add: settle_def loses_def Let_def)














section \<open>What the callbacks check\<close>








section \<open>The sample tables are states of real runs\<close>


lemma actionTable_reached:
  "map_option look
     (steps [CreateRoom ''a'' ''r'' ''Ann'', JoinRoom ''b'' ''r'' ''Bob'',
             RequestStartGame ''a'' orderedDeck,
             PlaceBet ''a'' ''r'' ''10'', PlaceBet ''b'' ''r'' ''10''] start)
   = Some (look (actionTable
        [(''a'', (punter ''Ann'' StPlaying 10)\<lparr>result := Blank,
                  hand := [Card Spades King, Card Spades Queen], score := 20\<rparr>),
         (''b'', (punter ''Bob'' StPlaying 10)\<lparr>result := Blank,
                  hand := [Card Spades Jack, Card Spades (Num 10)], score := 20\<rparr>)]))"
  by (simp add: look_def actionTable_def punter_def run_defs fun_eq_iff)


lemma dealerTable_reached:
  "map_option look
     (steps [CreateRoom ''a'' ''r'' ''Ann'', JoinRoom ''b'' ''r'' ''Bob'',
             RequestStartGame ''a'' orderedDeck,
             PlaceBet ''a'' ''r'' ''10'', PlaceBet ''b'' ''r'' ''10'',
             Stand ''a'' ''r'', Stand ''b'' ''r'', Fire 3 [] []] start)
   = Some (look (dealerTable
        [(''a'', (punter ''Ann'' StStand 10)\<lparr>result := Blank,
                  hand := [Card Spades King, Card Spades Queen], score := 20\<rparr>),
         (''b'', (punter ''Bob'' StStand 10)\<lparr>result := Blank,
                  hand := [Card Spades Jack, Card Spades (Num 10)], score := 20\<rparr>)]))"
  by (simp add: look_def dealerTable_def punter_def run_defs fun_eq_iff)


section \<open>Claims\<close>

text \<open>
  C1. When \<open>determineWinner\<close> runs on a room it does not throw, it keeps the players and
  their order, and it treats each player by these rules against the dealer's score: with
  \<open>bet > 0\<close>, a player whose status is bust loses the bet whatever the dealer's score;
  otherwise the player wins the bet when the dealer is over 21 or the player's score is
  higher; otherwise loses it when the player's score is lower; otherwise (equal scores) the
  chips stay as they are. A player whose bet is not positive is left exactly as it was: no
  result entry and no change of chips.
\<close>

theorem determineWinner_rules:
  assumes "rooms s roomId = Some a"
  shows "\<exists>s'. determineWinner roomId s = Some s'
     \<and> map fst (players (heap s' a)) = map fst (players (heap s a))
     \<and> (\<forall>i<length (players (heap s a)).
          let p = snd (players (heap s a) ! i); p' = snd (players (heap s' a) ! i);
              dealerScore = score (dealer (heap s a))
          in (bet p > 0 \<and> status p = StBust \<longrightarrow>
                chips p' = chips p - bet p \<and> result p' = LoseBust)
           \<and> (bet p > 0 \<and> status p \<noteq> StBust \<and> (dealerScore > 21 \<or> score p > dealerScore) \<longrightarrow>
                chips p' = chips p + bet p \<and> result p' = Win)
           \<and> (bet p > 0 \<and> status p \<noteq> StBust \<and> dealerScore \<le> 21 \<and> score p < dealerScore \<longrightarrow>
                chips p' = chips p - bet p \<and> result p' = Lose)
           \<and> (bet p > 0 \<and> status p \<noteq> StBust \<and> dealerScore \<le> 21 \<and> score p = dealerScore \<longrightarrow>
                chips p' = chips p \<and> result p' = Push)
           \<and> (\<not> bet p > 0 \<longrightarrow> p' = p))"
proof -
  from determineWinner_players [OF assms] obtain s' where
    s': "determineWinner roomId s = Some s'"
    "players (heap s' a) =
       map (\<lambda>(pid, p). (pid, settle (score (dealer (heap s a))) p)) (players (heap s a))"
    by blast
  have keys: "map fst (players (heap s' a)) = map fst (players (heap s a))"
    by (simp add: s'(2) case_prod_beta)
  have each: "snd (players (heap s' a) ! i) = settle (score (dealer (heap s a))) (snd (players (heap s a) ! i))"
    if "i < length (players (heap s a))" for i
    using that by (simp add: s'(2) case_prod_beta)
  show ?thesis
    using s'(1) keys
    by (auto simp: each Let_def settle_def loses_def)
qed

theorem determineWinner_rules_witness:
  "rooms (start\<lparr>rooms := [''r'' \<mapsto> 0],
       heap := (heap start)(0 := (heap start 0)\<lparr>dealer := \<lparr>hand = [], score = 24\<rparr>,
         players := [(''a'', (createPlayer ''Ann'')\<lparr>bet := 50, score := 18, status := StStand\<rparr>)]\<rparr>)\<rparr>) ''r'' = Some 0
   \<and> map_option (\<lambda>s'. chips (snd (players (heap s' 0) ! 0)))
        (determineWinner ''r'' (start\<lparr>rooms := [''r'' \<mapsto> 0],
           heap := (heap start)(0 := (heap start 0)\<lparr>dealer := \<lparr>hand = [], score = 24\<rparr>,
             players := [(''a'', (createPlayer ''Ann'')\<lparr>bet := 50, score := 18, status := StStand\<rparr>)]\<rparr>)\<rparr>))
       = Some 1050"
proof -
  let ?s = "start\<lparr>rooms := [''r'' \<mapsto> 0],
       heap := (heap start)(0 := (heap start 0)\<lparr>dealer := \<lparr>hand = [], score = 24\<rparr>,
         players := [(''a'', (createPlayer ''Ann'')\<lparr>bet := 50, score := 18, status := StStand\<rparr>)]\<rparr>)\<rparr>"
  have r: "rooms ?s ''r'' = Some 0" by simp
  from determineWinner_rules [OF r] obtain s' where
    s': "determineWinner ''r'' ?s = Some s'"
    and all: "\<forall>i<length (players (heap ?s 0)).
          let p = snd (players (heap ?s 0) ! i); p' = snd (players (heap s' 0) ! i);
              dealerScore = score (dealer (heap ?s 0))
          in (bet p > 0 \<and> status p = StBust \<longrightarrow>
                chips p' = chips p - bet p \<and> result p' = LoseBust)
           \<and> (bet p > 0 \<and> status p \<noteq> StBust \<and> (dealerScore > 21 \<or> score p > dealerScore) \<longrightarrow>
                chips p' = chips p + bet p \<and> result p' = Win)
           \<and> (bet p > 0 \<and> status p \<noteq> StBust \<and> dealerScore \<le> 21 \<and> score p < dealerScore \<longrightarrow>
                chips p' = chips p - bet p \<and> result p' = Lose)
           \<and> (bet p > 0 \<and> status p \<noteq> StBust \<and> dealerScore \<le> 21 \<and> score p = dealerScore \<longrightarrow>
                chips p' = chips p \<and> result p' = Push)
           \<and> (\<not> bet p > 0 \<longrightarrow> p' = p)"
    by blast
  from all have "chips (snd (players (heap s' 0) ! 0)) = 1050"
    by (simp add: Let_def createPlayer_def)
  with r s' show ?thesis by simp
qed

text \<open>
  C2. For every hand, \<open>calculateScore\<close> is the sum of the ranks with J, Q, K worth 10 and
  every Ace worth 11, less 10 for each of \<open>d\<close> demoted Aces: every Ace is counted once, as
  11 or as 1. The loop demotes one Ace at a time and only while the total exceeds 21, so
  \<open>d\<close> is the least number of demotions that brings the total to 21 or less, or all the
  Aces when there is no such number. [A, K] scores 21, [A, A] scores 12 and [A, A, 9]
  scores 21.
\<close>

theorem calculateScore_aces:
  "(\<exists>d\<le>aces cards.
      calculateScore cards = others cards + 11 * (aces cards - d) + 1 * d
    \<and> (d < aces cards \<longrightarrow> calculateScore cards \<le> 21)
    \<and> (\<forall>j<d. 21 < others cards + 11 * (aces cards - j) + 1 * j))
   \<and> calculateScore [Card Spades Ace, Card Hearts King] = 21
   \<and> calculateScore [Card Spades Ace, Card Hearts Ace] = 12
   \<and> calculateScore [Card Spades Ace, Card Hearts Ace, Card Clubs (Num 9)] = 21"
proof -
  obtain d where d: "d \<le> aces cards"
    "demote (others cards + 11 * aces cards) (aces cards) = others cards + 11 * aces cards - 10 * d"
    "d < aces cards \<longrightarrow> others cards + 11 * aces cards - 10 * d \<le> 21"
    "\<forall>j<d. 21 < others cards + 11 * aces cards - 10 * j"
    using demote_shape [of "aces cards" "others cards + 11 * aces cards"] by blast
  have conv: "others cards + 11 * aces cards - 10 * j = others cards + 11 * (aces cards - j) + 1 * j"
    if "j \<le> aces cards" for j
    using that by (simp add: diff_mult_distrib2)
  have score: "calculateScore cards = others cards + 11 * aces cards - 10 * d"
    by (simp add: calculateScore_def tally_acc d(2))
  have 1: "calculateScore cards = others cards + 11 * (aces cards - d) + 1 * d"
    using score conv [OF d(1)] by simp
  have 2: "d < aces cards \<longrightarrow> calculateScore cards \<le> 21"
    using d(3) score by simp
  have 3: "\<forall>j<d. 21 < others cards + 11 * (aces cards - j) + 1 * j"
  proof (intro allI impI)
    fix j assume "j < d"
    then have "j \<le> aces cards" using d(1) by simp
    moreover from d(4) \<open>j < d\<close> have "21 < others cards + 11 * aces cards - 10 * j"
      by blast
    ultimately show "21 < others cards + 11 * (aces cards - j) + 1 * j"
      by (simp only: conv)
  qed
  have ex: "calculateScore [Card Spades Ace, Card Hearts King] = 21"
    "calculateScore [Card Spades Ace, Card Hearts Ace] = 12"
    "calculateScore [Card Spades Ace, Card Hearts Ace, Card Clubs (Num 9)] = 21"
    by (simp_all add: calculateScore_def demote.simps)
  from d(1) 1 2 3 ex show ?thesis by blast
qed

theorem calculateScore_aces_witness:
  "calculateScore [Card Spades Ace, Card Hearts Ace, Card Clubs (Num 9), Card Clubs King] = 21
   \<and> aces [Card Spades Ace, Card Hearts Ace, Card Clubs (Num 9), Card Clubs King] = 2
   \<and> others [Card Spades Ace, Card Hearts Ace, Card Clubs (Num 9), Card Clubs King] = 19"
proof -
  let ?h = "[Card Spades Ace, Card Hearts Ace, Card Clubs (Num 9), Card Clubs King]"
  have a: "aces ?h = 2" and b: "others ?h = 19"
    by (simp_all add: aces_def others_def)
  from calculateScore_aces [of ?h] obtain d where d: "d \<le> aces ?h"
    "calculateScore ?h = others ?h + 11 * (aces ?h - d) + 1 * d"
    "d < aces ?h \<longrightarrow> calculateScore ?h \<le> 21"
    by blast
  from d(1) have "d = 0 \<or> d = 1 \<or> d = 2" unfolding a by arith
  with d(2,3) have "calculateScore ?h = 21" unfolding a b by auto
  with a b show ?thesis by simp
qed




text \<open>
  C4 does not hold as stated: in the action phase the view shows the dealer's first card
  and hides the second, and the score sent is that of the first card (9 here).
\<close>

theorem project_shows_first_card:
  "project \<lparr>players = [], gameState = ActionPhase, round = 1,
      dealer = \<lparr>hand = [Card Spades (Num 9), Card Spades (Num 8)], score = 17\<rparr>,
      deck = [], timers = noTimers\<rparr>
   = Some \<lparr>cPlayers = [], cGameState = ActionPhase, cRound = 1,
      cDealerHand = [Face (Card Spades (Num 9)), Hidden], cDealerScore = 9\<rparr>"
  by (simp add: project_def calculateScore_def demote.simps)

text \<open>
  C4, amended. In every state reached from the start, \<open>updateGameState\<close> on a room of
  \<open>rooms\<close> sends one view and changes nothing else. While the phase is action, the view
  carries the dealer's first card followed by one hidden placeholder in place of the rest
  of the hand and, as the dealer's score, the score of that first card alone. In every
  other phase it carries the dealer's whole hand and its true score, the score of that whole
  hand. The whole player map, the phase and the round are in every view.
\<close>

theorem updateGameState_view:
  assumes "steps es start = Some s" and "rooms s roomId = Some a"
  shows "\<exists>v. updateGameState roomId s = Some (emit (GameStateUpdate roomId v) s)
     \<and> cPlayers v = players (heap s a) \<and> cGameState v = gameState (heap s a)
     \<and> cRound v = round (heap s a)
     \<and> (gameState (heap s a) = ActionPhase \<longrightarrow>
          (\<exists>c cs. hand (dealer (heap s a)) = c # cs \<and> cDealerHand v = [Face c, Hidden]
             \<and> cDealerScore v = calculateScore [c]))
     \<and> (gameState (heap s a) \<noteq> ActionPhase \<longrightarrow>
          cDealerHand v = map Face (hand (dealer (heap s a)))
          \<and> cDealerScore v = calculateScore (hand (dealer (heap s a))))"
proof -
  from scored_steps [OF assms(1) scored_start] have sc: "scoredRoom (heap s a)"
    by (simp add: scored_def)
  show ?thesis
  proof (cases "gameState (heap s a) = ActionPhase")
    case True
    with sc obtain c cs where h: "hand (dealer (heap s a)) = c # cs"
      by (cases "hand (dealer (heap s a))") (auto simp: scoredRoom_def)
    let ?v = "\<lparr>cPlayers = players (heap s a), cGameState = ActionPhase, cRound = round (heap s a),
         cDealerHand = [Face c, Hidden], cDealerScore = calculateScore [c]\<rparr>"
    from project_hidden [OF True h] assms(2)
    have "updateGameState roomId s = Some (emit (GameStateUpdate roomId ?v) s)"
      by (simp add: updateGameState_def)
    with True h show ?thesis
      by (intro exI [of _ ?v]) simp
  next
    case False
    let ?v = "\<lparr>cPlayers = players (heap s a), cGameState = gameState (heap s a),
         cRound = round (heap s a), cDealerHand = map Face (hand (dealer (heap s a))),
         cDealerScore = score (dealer (heap s a))\<rparr>"
    from project_shown [OF False] assms(2)
    have "updateGameState roomId s = Some (emit (GameStateUpdate roomId ?v) s)"
      by (simp add: updateGameState_def)
    with False sc show ?thesis
      by (intro exI [of _ ?v]) (simp add: scoredRoom_def)
  qed
qed

theorem updateGameState_view_witness:
  "\<exists>s v. steps [CreateRoom ''a'' ''r'' ''Ann'', JoinRoom ''b'' ''r'' ''Bob'',
                 RequestStartGame ''a'' orderedDeck,
                 PlaceBet ''a'' ''r'' ''10'', PlaceBet ''b'' ''r'' ''10''] start = Some s
      \<and> rooms s ''r'' = Some 0
      \<and> updateGameState ''r'' s = Some (emit (GameStateUpdate ''r'' v) s)
      \<and> cGameState v = ActionPhase
      \<and> cDealerHand v = [Face (Card Spades (Num 9)), Hidden] \<and> cDealerScore v = 9"
proof -
  let ?es = "[CreateRoom ''a'' ''r'' ''Ann'', JoinRoom ''b'' ''r'' ''Bob'',
              RequestStartGame ''a'' orderedDeck,
              PlaceBet ''a'' ''r'' ''10'', PlaceBet ''b'' ''r'' ''10'']"
  from actionTable_reached obtain s ps where
    s: "steps ?es start = Some s" and l: "look s = look (actionTable ps)"
    by (cases "steps ?es start") auto
  from l have r: "rooms s ''r'' = Some 0" and h: "heap s 0 = heap (actionTable ps) 0"
    by (simp_all add: look_def)
  have g: "gameState (heap s 0) = ActionPhase"
    and d: "hand (dealer (heap s 0)) = [Card Spades (Num 9), Card Spades (Num 8)]"
    by (simp_all add: h)
  have nine: "calculateScore [Card Spades (Num 9)] = 9"
    by (simp add: calculateScore_def demote.simps)
  from updateGameState_view [OF s r] obtain v where
    v: "updateGameState ''r'' s = Some (emit (GameStateUpdate ''r'' v) s)"
      "cGameState v = gameState (heap s 0)"
      "gameState (heap s 0) = ActionPhase \<longrightarrow>
          (\<exists>c cs. hand (dealer (heap s 0)) = c # cs \<and> cDealerHand v = [Face c, Hidden]
             \<and> cDealerScore v = calculateScore [c])"
    by blast
  from v(3) g d have "cDealerHand v = [Face (Card Spades (Num 9)), Hidden]"
    "cDealerScore v = 9"
    by (auto simp: nine)
  with s r v(1,2) g show ?thesis by auto
qed

text \<open>
  C5 does not hold as stated: \<open>dealCard\<close> on the empty deck raises nothing. It returns
  \<open>undefined\<close>, not a card, and the deck stays empty.
\<close>

theorem dealCard_empty_returns_undefined:
  "dealCard [] = (None, [])"
  by (simp add: dealCard_def)

text \<open>
  C5, amended. Drawing from a non-empty deck removes and returns its last card. Drawing from
  an empty deck returns \<open>undefined\<close> and leaves the deck empty; no error of the deck is
  raised. Every caller pushes what it drew onto a hand and scores the hand next, and it is
  there that the draw from an empty deck ends in an uncaught \<open>TypeError\<close>.
\<close>

theorem dealCard_pops_last:
  "(d \<noteq> [] \<longrightarrow> (\<exists>c rest. d = rest @ [c] \<and> dealCard d = (Some c, rest)
                      \<and> draw cards d = Some (cards @ [c], rest)))
   \<and> dealCard [] = (None, []) \<and> draw cards [] = None"
proof -
  have "d \<noteq> [] \<longrightarrow> d = butlast d @ [last d]" by simp
  then show ?thesis
    by (auto simp: dealCard_def draw_def)
qed

theorem dealCard_pops_last_witness:
  "dealCard [Card Hearts Ace, Card Clubs (Num 7)] = (Some (Card Clubs (Num 7)), [Card Hearts Ace])
   \<and> draw [] [Card Hearts Ace, Card Clubs (Num 7)] = Some ([Card Clubs (Num 7)], [Card Hearts Ace])"
  using dealCard_pops_last [of "[Card Hearts Ace, Card Clubs (Num 7)]" "[]"]
  by auto

text \<open>
  C6 does not hold as stated: the amount \<open>5.7\<close> is not a positive integer, and the bet is
  accepted, as a bet of 5. Ann creates room \<open>r\<close>, Bob joins, Ann starts the game and sends
  \<open>placeBet\<close> with amount \<open>5.7\<close>.
\<close>

theorem placeBet_accepts_non_integer:
  "\<not> positiveInteger ''5.7''
   \<and> map_option (betsOf 0)
       (steps [CreateRoom ''a'' ''r'' ''Ann'', JoinRoom ''b'' ''r'' ''Bob'',
               RequestStartGame ''a'' orderedDeck,
               PlaceBet ''a'' ''r'' ''5.7''] start)
     = Some [(''a'', 5, StBetted), (''b'', 0, StBetting)]"
  by (simp add: positiveInteger_def run_defs)

text \<open>
  C6, amended. For a room id that names a room, or that is no property of \<open>rooms\<close> at all, a
  bet placement is accepted if and only if the room exists and its phase is betting, the
  requesting player is in the room and is not eliminated, and \<open>parseInt(amount, 10)\<close> is
  positive: the text of the amount, after leading white space and an optional sign, starts
  with decimal digits whose value is positive; what follows the digits is ignored. Every
  positive integer passes. On acceptance the handler returns, and the player's bet is that
  parsed integer and the status is betted, nothing else in the room having changed; when
  this bet was the last one awaited and the deck holds the cards to deal, the cards are
  dealt in the same handler and the status is playing in the action phase. The chips are
  untouched. On rejection the state is unchanged and nothing is emitted.
\<close>

theorem placeBet_accepted_iff:
  "(rooms s roomId \<noteq> None \<or> \<not> inherited roomId \<longrightarrow>
      (placeBet sid roomId amount s \<noteq> Some s \<longleftrightarrow>
         (\<exists>a player n. betGuard sid roomId amount s a player n)))
   \<and> (betGuard sid roomId amount s a player n \<longrightarrow>
        map_of (players (heap (withBet sid n a s) a)) sid = Some (player\<lparr>bet := n, status := StBetted\<rparr>)
      \<and> (\<not> allPlayersBetted (heap (withBet sid n a s) a) \<longrightarrow>
           (\<exists>v. placeBet sid roomId amount s
                  = Some (emit (GameStateUpdate roomId v) (withBet sid n a s))))
      \<and> (allPlayersBetted (heap (withBet sid n a s) a)
            \<and> 2 * length (players (heap s a)) + 2 \<le> length (deck (heap s a)) \<longrightarrow>
           (\<exists>s' p'. placeBet sid roomId amount s = Some s' \<and> gameState (heap s' a) = ActionPhase
              \<and> map_of (players (heap s' a)) sid = Some p' \<and> bet p' = n
              \<and> chips p' = chips player \<and> status p' = StPlaying)))
   \<and> (positiveInteger amount \<longrightarrow>
        parseInt amount = Some (int (digitsValue amount)) \<and> 0 < int (digitsValue amount))"
proof -
  have 1: "placeBet sid roomId amount s \<noteq> Some s \<longleftrightarrow>
      (\<exists>a player n. betGuard sid roomId amount s a player n)"
    if "rooms s roomId \<noteq> None \<or> \<not> inherited roomId"
    using placeBet_rejected [of sid roomId amount s] placeBet_changes that by blast
  have 2: "map_of (players (heap (withBet sid n a s) a)) sid = Some (player\<lparr>bet := n, status := StBetted\<rparr>)"
    if "betGuard sid roomId amount s a player n"
    using that by (simp add: betGuard_def withBet_def AList.map_of_map_entry)
  have 3: "\<exists>v. placeBet sid roomId amount s = Some (emit (GameStateUpdate roomId v) (withBet sid n a s))"
    if "betGuard sid roomId amount s a player n" "\<not> allPlayersBetted (heap (withBet sid n a s) a)"
    using placeBet_waits [OF that] .
  have 4: "\<exists>s' p'. placeBet sid roomId amount s = Some s' \<and> gameState (heap s' a) = ActionPhase
              \<and> map_of (players (heap s' a)) sid = Some p' \<and> bet p' = n
              \<and> chips p' = chips player \<and> status p' = StPlaying"
    if g: "betGuard sid roomId amount s a player n"
      and ab: "allPlayersBetted (heap (withBet sid n a s) a)"
      and dk: "2 * length (players (heap s a)) + 2 \<le> length (deck (heap s a))"
  proof -
    from placeBet_deals [OF g ab dk] obtain s' where
      s': "placeBet sid roomId amount s = Some s'" "gameState (heap s' a) = ActionPhase"
      by blast
    from placeBet_effect [OF g s'(1)] s'(2) obtain p' where
      "map_of (players (heap s' a)) sid = Some p'" "bet p' = n" "chips p' = chips player"
      "status p' = StPlaying"
      by auto
    with s' show ?thesis by blast
  qed
  have 5: "positiveInteger amount \<longrightarrow>
        parseInt amount = Some (int (digitsValue amount)) \<and> 0 < int (digitsValue amount)"
    using parseInt_numeral by (simp add: positiveInteger_def)
  from 1 2 3 4 5 show ?thesis by blast
qed

theorem placeBet_accepted_iff_witness:
  "betGuard ''b'' ''r'' ''25''
     (bettingTable [(''a'', punter ''Ann'' StBetting 0), (''b'', punter ''Bob'' StBetting 0)])
     0 (punter ''Bob'' StBetting 0) 25
   \<and> positiveInteger ''25''
   \<and> map_option (betsOf 0) (placeBet ''b'' ''r'' ''25''
       (bettingTable [(''a'', punter ''Ann'' StBetting 0), (''b'', punter ''Bob'' StBetting 0)]))
     = Some [(''a'', 0, StBetting), (''b'', 25, StBetted)]
   \<and> placeBet ''b'' ''r'' ''0''
       (bettingTable [(''a'', punter ''Ann'' StBetting 0), (''b'', punter ''Bob'' StBetting 0)])
     = Some (bettingTable [(''a'', punter ''Ann'' StBetting 0), (''b'', punter ''Bob'' StBetting 0)])"
proof -
  let ?s = "bettingTable [(''a'', punter ''Ann'' StBetting 0), (''b'', punter ''Bob'' StBetting 0)]"
  have g: "betGuard ''b'' ''r'' ''25'' ?s 0 (punter ''Bob'' StBetting 0) 25"
    by (simp add: betGuard_def parseInt_25 punter_def createPlayer_def)
  have p: "positiveInteger ''25''"
    by (simp add: positiveInteger_def isDigit_def digitsValue_def)
  have nb: "\<not> allPlayersBetted (heap (withBet ''b'' 25 0 ?s) 0)"
    by (simp add: allPlayersBetted_def withBet_def punter_def createPlayer_def)
  have z: "parseInt ''0'' = Some 0"
    by (simp add: parseInt_def isWhite_def isDigit_def digitsValue_def)
  have ng: "\<not> (\<exists>a player n. betGuard ''b'' ''r'' ''0'' ?s a player n)"
    by (simp add: betGuard_def z)
  have r: "rooms ?s ''r'' \<noteq> None \<or> \<not> inherited ''r''" by simp
  from placeBet_accepted_iff [of ?s "''r''" "''b''" "''25''" 0 "punter ''Bob'' StBetting 0" 25] g nb
  obtain v where "placeBet ''b'' ''r'' ''25'' ?s = Some (emit (GameStateUpdate ''r'' v) (withBet ''b'' 25 0 ?s))"
    by blast
  then have 1: "map_option (betsOf 0) (placeBet ''b'' ''r'' ''25'' ?s)
      = Some [(''a'', 0, StBetting), (''b'', 25, StBetted)]"
    by (simp add: betsOf_def withBet_def punter_def createPlayer_def)
  from placeBet_accepted_iff [of ?s "''r''" "''b''" "''0''"] r ng
  have 2: "placeBet ''b'' ''r'' ''0'' ?s = Some ?s"
    by blast
  from g p 1 2 show ?thesis by simp
qed

text \<open>
  C7. In the betting phase an accepted bet is followed by the check that every player is
  betted or eliminated. When the check holds (every other player of the room is betted or
  eliminated), the handler itself cancels the countdown and the deadline, deals two cards to
  every player with a live bet and to the dealer, and leaves the room in the action phase;
  no timer has to fire for that. When it does not hold, the room stays in the betting phase
  and no timer is touched. The deck must hold the cards to be dealt (two for each player
  and for the dealer), as the deck of \<open>startRound\<close> does for up to five players.
\<close>

theorem placeBet_all_betted_deals:
  assumes "betGuard sid roomId amount s a player n"
    and "distinct (map fst (players (heap s a)))"
    and "2 * length (players (heap s a)) + 2 \<le> length (deck (heap s a))"
  shows "((\<forall>(k, p)\<in>set (players (heap s a)). k \<noteq> sid \<longrightarrow> status p = StBetted \<or> isEliminated p) \<longrightarrow>
          (\<exists>s'. placeBet sid roomId amount s = Some s' \<and> gameState (heap s' a) = ActionPhase
             \<and> (\<forall>h. Some h \<in> {betTimeout (timers (heap s a)), betCountdown (timers (heap s a))}
                    \<longrightarrow> \<not> isBetTimer (pending s' h))
             \<and> list_all2 (\<lambda>x y. fst y = fst x \<and> dealtTo (snd x) (snd y))
                  (players (heap (withBet sid n a s) a)) (players (heap s' a))
             \<and> length (hand (dealer (heap s' a))) = length (hand (dealer (heap s a))) + 2))
       \<and> (\<not> (\<forall>(k, p)\<in>set (players (heap s a)). k \<noteq> sid \<longrightarrow> status p = StBetted \<or> isEliminated p) \<longrightarrow>
          (\<exists>s'. placeBet sid roomId amount s = Some s' \<and> gameState (heap s' a) = Betting
             \<and> pending s' = pending s))"
proof -
  from assms(1) have m: "map_of (players (heap s a)) sid = Some player"
    and g: "gameState (heap s a) = Betting"
    by (simp_all add: betGuard_def)
  note iff = allPlayersBetted_withBet [OF assms(2) m, of n]
  show ?thesis
  proof (cases "allPlayersBetted (heap (withBet sid n a s) a)")
    case True
    from placeBet_deals [OF assms(1) True assms(3)] True iff show ?thesis
      by blast
  next
    case False
    from placeBet_waits [OF assms(1) False] obtain v where
      "placeBet sid roomId amount s = Some (emit (GameStateUpdate roomId v) (withBet sid n a s))"
      by blast
    then have "\<exists>s'. placeBet sid roomId amount s = Some s' \<and> gameState (heap s' a) = Betting
             \<and> pending s' = pending s"
      using g by simp
    with False iff show ?thesis by blast
  qed
qed

theorem placeBet_all_betted_deals_witness:
  "betGuard ''b'' ''r'' ''25''
     (bettingTable [(''a'', punter ''Ann'' StBetted 10), (''b'', punter ''Bob'' StBetting 0)])
     0 (punter ''Bob'' StBetting 0) 25
   \<and> map_option (phaseOf 0) (placeBet ''b'' ''r'' ''25''
       (bettingTable [(''a'', punter ''Ann'' StBetted 10), (''b'', punter ''Bob'' StBetting 0)]))
     = Some ActionPhase
   \<and> map_option (phaseOf 0) (placeBet ''b'' ''r'' ''25''
       (bettingTable [(''a'', punter ''Ann'' StBetting 0), (''b'', punter ''Bob'' StBetting 0)]))
     = Some Betting"
proof -
  let ?s = "bettingTable [(''a'', punter ''Ann'' StBetted 10), (''b'', punter ''Bob'' StBetting 0)]"
  let ?t = "bettingTable [(''a'', punter ''Ann'' StBetting 0), (''b'', punter ''Bob'' StBetting 0)]"
  have g: "betGuard ''b'' ''r'' ''25'' ?s 0 (punter ''Bob'' StBetting 0) 25"
    by (simp add: betGuard_def parseInt_25 punter_def createPlayer_def)
  have g': "betGuard ''b'' ''r'' ''25'' ?t 0 (punter ''Bob'' StBetting 0) 25"
    by (simp add: betGuard_def parseInt_25 punter_def createPlayer_def)
  have d: "distinct (map fst (players (heap ?s 0)))" "distinct (map fst (players (heap ?t 0)))"
    by simp_all
  have c: "2 * length (players (heap ?s 0)) + 2 \<le> length (deck (heap ?s 0))"
    "2 * length (players (heap ?t 0)) + 2 \<le> length (deck (heap ?t 0))"
    by simp_all
  have "map_option (phaseOf 0) (placeBet ''b'' ''r'' ''25'' ?s) = Some ActionPhase"
    using placeBet_all_betted_deals [OF g d(1) c(1)]
    by (auto simp: punter_def phaseOf_def)
  moreover have "map_option (phaseOf 0) (placeBet ''b'' ''r'' ''25'' ?t) = Some Betting"
    using placeBet_all_betted_deals [OF g' d(2) c(2)]
    by (auto simp: punter_def createPlayer_def phaseOf_def)
  ultimately show ?thesis using g by simp
qed

text \<open>
  C8 does not hold as stated: when the aggregate holds, the room is not in the dealer phase
  on the handler's return. Ann and Bob have bet and hold their cards; Ann stands, then Bob
  stands: every player is done, the room is still in the action phase, and the dealer's turn
  is a timeout of 2000 ms (handle 3) that has yet to fire.
\<close>

theorem last_stand_leaves_action_phase:
  "map_option (checkView 0 3)
     (steps [CreateRoom ''a'' ''r'' ''Ann'', JoinRoom ''b'' ''r'' ''Bob'',
             RequestStartGame ''a'' orderedDeck,
             PlaceBet ''a'' ''r'' ''10'', PlaceBet ''b'' ''r'' ''10'',
             Stand ''a'' ''r'', Stand ''b'' ''r''] start)
   = Some (ActionPhase, True, Some (DealerWaitCb ''r'', 2000))"
  by (simp add: checkView_def run_defs)

text \<open>
  C8, amended. During the action phase, after every accepted hit and every accepted stand
  the handler re-evaluates the all-done aggregate: true when every player with \<open>bet > 0\<close>
  who is not eliminated has status stand or bust (eliminated and zero-bet players satisfy it
  vacuously). When it holds, the handler cancels the action countdown, emits a notification
  and arms a timeout of \<open>DEALER_WAIT_TIME\<close> (2000 ms); the room is still in the action phase
  when the handler returns, and it enters the dealer phase when that timeout fires. When it
  does not hold, no timer changes.
\<close>

theorem action_recheck:
  assumes "rooms s roomId = Some a" and "map_of (players (heap s a)) sid = Some player"
    and "gameState (heap s a) = ActionPhase" and "hand (dealer (heap s a)) \<noteq> []"
    and "status player = StPlaying"
  shows "(\<exists>s'. stand sid roomId s = Some s' \<and> afterCheck roomId a s s'
            \<and> players (heap s' a)
                = AList.map_entry sid (\<lambda>p. p\<lparr>status := StStand\<rparr>) (players (heap s a)))
       \<and> (deck (heap s a) \<noteq> [] \<longrightarrow>
           (\<exists>s'. hit sid roomId s = Some s' \<and> afterCheck roomId a s s'
              \<and> deck (heap s' a) = butlast (deck (heap s a))
              \<and> players (heap s' a) = AList.map_entry sid
                   (\<lambda>p. p\<lparr>hand := hand player @ [last (deck (heap s a))],
                          score := calculateScore (hand player @ [last (deck (heap s a))]),
                          status := (if calculateScore (hand player @ [last (deck (heap s a))]) > 21
                                     then StBust else status p)\<rparr>) (players (heap s a))))
       \<and> (allPlayersDone (heap s a) \<longleftrightarrow>
           (\<forall>(k, p)\<in>set (players (heap s a)).
              bet p > 0 \<and> \<not> isEliminated p \<longrightarrow> status p = StStand \<or> status p = StBust))"
proof -
  have 1: "\<exists>s'. stand sid roomId s = Some s' \<and> afterCheck roomId a s s'
            \<and> players (heap s' a)
                = AList.map_entry sid (\<lambda>p. p\<lparr>status := StStand\<rparr>) (players (heap s a))"
    using stand_result [OF assms(1,2,3,5,4)] .
  have 2: "\<exists>s'. hit sid roomId s = Some s' \<and> afterCheck roomId a s s'
              \<and> deck (heap s' a) = butlast (deck (heap s a))
              \<and> players (heap s' a) = AList.map_entry sid
                   (\<lambda>p. p\<lparr>hand := hand player @ [last (deck (heap s a))],
                          score := calculateScore (hand player @ [last (deck (heap s a))]),
                          status := (if calculateScore (hand player @ [last (deck (heap s a))]) > 21
                                     then StBust else status p)\<rparr>) (players (heap s a))"
    if "deck (heap s a) \<noteq> []"
    using hit_result [OF assms(1,2,3,5,4) that] .
  have 3: "allPlayersDone (heap s a) \<longleftrightarrow>
           (\<forall>(k, p)\<in>set (players (heap s a)).
              bet p > 0 \<and> \<not> isEliminated p \<longrightarrow> status p = StStand \<or> status p = StBust)"
    by (auto simp: allPlayersDone_def list_all_iff)
  from 1 2 3 show ?thesis by blast
qed

theorem action_recheck_witness:
  "rooms (actionTable [(''a'', punter ''Ann'' StStand 10), (''b'', punter ''Bob'' StPlaying 10)]) ''r'' = Some 0
   \<and> (\<exists>s'. stand ''b'' ''r''
              (actionTable [(''a'', punter ''Ann'' StStand 10), (''b'', punter ''Bob'' StPlaying 10)]) = Some s'
          \<and> phaseOf 0 s' = ActionPhase \<and> allPlayersDone (heap s' 0)
          \<and> pending s' 3 = Some (DealerWaitCb ''r'', 2000)
          \<and> map_option (phaseOf 0) (fire 3 [] [] s') = Some Dealer)"
proof -
  let ?s = "actionTable [(''a'', punter ''Ann'' StStand 10), (''b'', punter ''Bob'' StPlaying 10)]"
  have r: "rooms ?s ''r'' = Some 0" by simp
  have m: "map_of (players (heap ?s 0)) ''b'' = Some (punter ''Bob'' StPlaying 10)" by simp
  have g: "gameState (heap ?s 0) = ActionPhase" by simp
  have d: "hand (dealer (heap ?s 0)) \<noteq> []" by simp
  have p: "status (punter ''Bob'' StPlaying 10) = StPlaying" by (simp add: punter_def)
  from action_recheck [OF r m g d p] obtain s' where
    s': "stand ''b'' ''r'' ?s = Some s'" "afterCheck ''r'' 0 ?s s'"
      "players (heap s' 0)
         = AList.map_entry ''b'' (\<lambda>p. p\<lparr>status := StStand\<rparr>) (players (heap ?s 0))"
    by blast
  have fin: "allPlayersDone (heap s' 0)"
    by (simp add: allPlayersDone_def s'(3) punter_def)
  from s'(2) fin have a: "gameState (heap s' 0) = ActionPhase"
    "pending s' 3 = Some (DealerWaitCb ''r'', 2000)"
    "\<exists>s''. fire 3 [] [] s' = Some s'' \<and> gameState (heap s'' 0) = Dealer"
    by (simp_all add: afterCheck_def DEALER_WAIT_TIME_def)
  from a(3) have "map_option (phaseOf 0) (fire 3 [] [] s') = Some Dealer"
    by (auto simp: phaseOf_def)
  with r s'(1) a(1,2) fin show ?thesis
    by (auto simp: phaseOf_def)
qed

text \<open>
  C9. The code breaks the claim: elimination is not permanent. Bob bets 2000 with 1000
  chips and loses (7 against the dealer's 18): his chips are -1000 and he is eliminated. He
  sends \<open>joinRoom\<close> for the same room again: \<open>joinRoom\<close> does not look whether the socket
  is in the room already, and his record is replaced by a new one, 1000 chips and not
  eliminated. It is this record that bets, is dealt to and is ranked from then on. Each
  line is the phase and, for every player, the chips and the flag.
\<close>

theorem rejoin_clears_elimination:
  "trail (seats 0)
     [CreateRoom ''a'' ''r'' ''Ann'', JoinRoom ''b'' ''r'' ''Bob'',
      RequestStartGame ''a'' (rev orderedDeck),
      PlaceBet ''a'' ''r'' ''10'', PlaceBet ''b'' ''r'' ''2000'',
      Stand ''a'' ''r'', Stand ''b'' ''r'',
      Fire 3 [] [], Fire 4 [] [], Fire 4 [] [], JoinRoom ''b'' ''r'' ''Bob''] start
   = [(Waiting, [(''a'', 1000, False)]),
      (Waiting, [(''a'', 1000, False), (''b'', 1000, False)]),
      (Betting, [(''a'', 1000, False), (''b'', 1000, False)]),
      (Betting, [(''a'', 1000, False), (''b'', 1000, False)]),
      (ActionPhase, [(''a'', 1000, False), (''b'', 1000, False)]),
      (ActionPhase, [(''a'', 1000, False), (''b'', 1000, False)]),
      (ActionPhase, [(''a'', 1000, False), (''b'', 1000, False)]),
      (Dealer, [(''a'', 1000, False), (''b'', 1000, False)]),
      (Dealer, [(''a'', 1000, False), (''b'', 1000, False)]),
      (Result, [(''a'', 990, False), (''b'', - 1000, True)]),
      (Result, [(''a'', 990, False), (''b'', 1000, False)])]"
  by (simp add: run_defs seats_def)




end
